theory Spec2Isabelle
  imports Main "HOL-Library.Word"
begin

section \<open>The outside world of the position monitor\<close>

text \<open>
  The monitor of \<^verbatim>\<open>stoploss/stoploss.go\<close> talks to the chain through the methods of a
  \<^verbatim>\<open>*contracts.PancakeSwapper\<close>. Every such method either fails or returns a value, and
  the monitor only looks at that outcome. A swapper is a pointer in the source and a
  handle (a number) here; a \<^verbatim>\<open>common.Address\<close> is 20 bytes; a \<^verbatim>\<open>*big.Int\<close> is an
  unbounded integer.
\<close>

type_synonym address = "160 word"

datatype call =
    GetTokenBalance nat address
  | GetTokenPrice nat address int
  | GetTokenPriceInUSDT nat address int
  | ApproveToken nat address int
  | SellToken nat address int

text \<open>
  What a call returned: an error, an amount (the read-only queries) or a transaction hash
  (approve and sell). An event is one call made by the monitor together with what it
  returned. The history is the list of all events so far, oldest first.
\<close>

datatype reply = Failed | Amount int | TxHash string

type_synonym event = "call \<times> reply"

type_synonym history = "event list"

text \<open>
  The chain answers a read-only query with an amount or an error (\<open>None\<close>), and a
  transaction with its hash or an error (\<open>None\<close>). The answer may depend on everything
  that happened before, so the same call can fail once and succeed later.
\<close>

record chain =
  query :: "history \<Rightarrow> call \<Rightarrow> int option"
  send :: "history \<Rightarrow> call \<Rightarrow> string option"

definition amount_reply :: "int option \<Rightarrow> reply" where
  "amount_reply r = (case r of None \<Rightarrow> Failed | Some v \<Rightarrow> Amount v)"

section \<open>Positions and the monitor\<close>

definition TakeProfitSellPercent :: int where
  "TakeProfitSellPercent = 70"

record Position =
  TokenAddress :: address
  BuyPriceWei :: int
  TokenAmount :: int
  InitialTokenAmount :: int
  WalletIndex :: int
  Swapper :: nat
  Sold :: bool
  Approved :: bool
  TakeProfitDone :: bool

record StopLossMonitor =
  positions :: "string \<rightharpoonup> Position"
  stopLossPercent :: int

definition NewStopLossMonitor :: "int \<Rightarrow> StopLossMonitor" where
  "NewStopLossMonitor slp = \<lparr>positions = Map.empty, stopLossPercent = slp\<rparr>"

subsection \<open>positionKey\<close>

text \<open>
  \<^verbatim>\<open>rune(walletIndex)\<close> converts a Go \<^verbatim>\<open>int\<close> to an \<^verbatim>\<open>int32\<close>: the low 32 bits, read as
  two's complement.
\<close>

definition rune :: "int \<Rightarrow> int" where
  "rune i = sint (word_of_int i :: 32 word)"

text \<open>
  \<^verbatim>\<open>string(r)\<close> for a rune \<open>r\<close> is the UTF-8 encoding of the code point \<open>r\<close>; a value
  that is no valid code point (negative, above \<open>0x10FFFF\<close>, or a surrogate) is encoded as
  the replacement character \<open>U+FFFD\<close>. The cases are in the order of the Go runtime's
  encoder.
\<close>

definition string_of_rune :: "int \<Rightarrow> string" where
  "string_of_rune r =
     (if 0 \<le> r \<and> r \<le> 0x7F then [char_of r]
      else if 0 \<le> r \<and> r \<le> 0x7FF then
        [char_of (0xC0 + r div 64), char_of (0x80 + r mod 64)]
      else if r < 0 \<or> 0x10FFFF < r \<or> (0xD800 \<le> r \<and> r \<le> 0xDFFF) then
        [char_of (0xEF :: int), char_of (0xBF :: int), char_of (0xBD :: int)]
      else if r \<le> 0xFFFF then
        [char_of (0xE0 + r div 4096), char_of (0x80 + (r div 64) mod 64),
         char_of (0x80 + r mod 64)]
      else
        [char_of (0xF0 + r div 262144), char_of (0x80 + (r div 4096) mod 64),
         char_of (0x80 + (r div 64) mod 64), char_of (0x80 + r mod 64)])"

text \<open>
  \<^verbatim>\<open>tokenAddress.Hex()\<close> is the checksummed hexadecimal form of the address, computed by
  go-ethereum with Keccak-256. It is a parameter \<open>hex\<close> of the model.
\<close>

definition positionKey :: "(address \<Rightarrow> string) \<Rightarrow> int \<Rightarrow> address \<Rightarrow> string" where
  "positionKey hex walletIndex tokenAddress =
     hex tokenAddress @ ''-'' @ string_of_rune (rune walletIndex)"

subsection \<open>calculateDropPercent\<close>

text \<open>
  \<^verbatim>\<open>big.Int.Div\<close> is Euclidean division: the remainder is never negative. It panics on a
  zero divisor, which is \<open>None\<close> here.
\<close>

definition big_Div :: "int \<Rightarrow> int \<Rightarrow> int option" where
  "big_Div x y =
     (if y = 0 then None
      else if 0 < y then Some (x div y)
      else Some (- (x div (- y))))"

text \<open>\<^verbatim>\<open>big.Int.Int64\<close> keeps the low 64 bits; \<^verbatim>\<open>int(...)\<close> of an \<^verbatim>\<open>int64\<close> changes nothing.\<close>

definition Int64 :: "int \<Rightarrow> int" where
  "Int64 x = sint (word_of_int x :: 64 word)"

text \<open>The result is \<open>None\<close> where the source would panic.\<close>

definition calculateDropPercent :: "int \<Rightarrow> int \<Rightarrow> int option" where
  "calculateDropPercent buyPrice currentPrice =
     (if buyPrice = 0 then Some 0
      else
        let diff = buyPrice - currentPrice in
        if diff \<le> 0 then Some 0
        else
          (case big_Div (diff * 100) buyPrice of
             None \<Rightarrow> None
           | Some percent \<Rightarrow> Some (Int64 percent)))"

subsection \<open>executeSell\<close>

definition maxApprove :: int where
  "maxApprove = 115792089237316195423570985008687907853269984665640564039457584007913129639935"

text \<open>
  The functions of the monitor change the position through its pointer; here they take
  the history \<open>h\<close> before the call and return the events they add to it, in order,
  together with the changed position. \<open>sellToken\<close> is the second half of
  \<^verbatim>\<open>executeSell\<close>, after the approval block. The source returns no value from
  \<^verbatim>\<open>executeSell\<close>: its caller cannot see whether the approval or the sale failed.
\<close>

definition sellToken :: "chain \<Rightarrow> history \<Rightarrow> Position \<Rightarrow> int \<Rightarrow> event list \<times> Position" where
  "sellToken ch h pos amount =
     (let c = SellToken (Swapper pos) (TokenAddress pos) amount in
      case send ch h c of
        None \<Rightarrow> ([(c, Failed)], pos)
      | Some sellTx \<Rightarrow> ([(c, TxHash sellTx)], pos))"

definition executeSell :: "chain \<Rightarrow> history \<Rightarrow> Position \<Rightarrow> int \<Rightarrow> event list \<times> Position" where
  "executeSell ch h pos amount =
     (if \<not> Approved pos then
        let c = ApproveToken (Swapper pos) (TokenAddress pos) maxApprove in
        case send ch h c of
          None \<Rightarrow> ([(c, Failed)], pos)
        | Some approveTx \<Rightarrow>
            let (evs, pos') = sellToken ch (h @ [(c, TxHash approveTx)]) (pos\<lparr>Approved := True\<rparr>) amount
            in ((c, TxHash approveTx) # evs, pos')
      else sellToken ch h pos amount)"

subsection \<open>checkTakeProfit\<close>

text \<open>
  The source divides the quoted amount by \<open>10^18\<close> in \<^verbatim>\<open>big.Float\<close>, rounds to a
  \<^verbatim>\<open>float64\<close> and compares with the constant \<open>0.0002\<close>. That test is the parameter
  \<open>reached\<close>: \<open>reached u\<close> says that the quoted amount \<open>u\<close> meets the take-profit price.
  \<open>oneToken\<close> is the amount the source asks a quote for, \<open>sellAmount\<close> the amount it
  computes for the partial sale; big-integer division by the positive constant 100 is
  HOL's \<open>div\<close>.
\<close>

definition oneToken :: "Position \<Rightarrow> int" where
  "oneToken pos = (if TokenAmount pos < 10 ^ 18 then TokenAmount pos else 10 ^ 18)"

definition sellAmount :: "Position \<Rightarrow> int" where
  "sellAmount pos =
     (let sellAmount0 = (InitialTokenAmount pos * TakeProfitSellPercent) div 100
      in if TokenAmount pos < sellAmount0 then TokenAmount pos else sellAmount0)"

definition checkTakeProfit ::
  "(int \<Rightarrow> bool) \<Rightarrow> chain \<Rightarrow> history \<Rightarrow> Position \<Rightarrow> event list \<times> Position" where
  "checkTakeProfit reached ch h pos =
     (let c = GetTokenPriceInUSDT (Swapper pos) (TokenAddress pos) (oneToken pos) in
      case query ch h c of
        None \<Rightarrow> ([(c, Failed)], pos)
      | Some usdtAmount \<Rightarrow>
          if reached usdtAmount then
            let (evs, pos2) = (if 0 < sellAmount pos
                               then executeSell ch (h @ [(c, Amount usdtAmount)]) pos (sellAmount pos)
                               else ([], pos))
            in ((c, Amount usdtAmount) # evs, pos2\<lparr>TakeProfitDone := True\<rparr>)
          else ([(c, Amount usdtAmount)], pos))"

subsection \<open>checkPositions\<close>

text \<open>
  The body of the loop of \<^verbatim>\<open>checkPositions\<close> for one position, in the three parts the
  source has: the balance refresh (\<open>checkPosition\<close> itself), the guarded call of
  \<^verbatim>\<open>checkTakeProfit\<close> (\<open>takeProfitStep\<close>), and the stop-loss rule from the price query
  to the deletion (\<open>stopLossStep\<close>). The last component of the result says whether the
  loop deletes the key from the map. A panic of \<^verbatim>\<open>calculateDropPercent\<close> would be
  \<open>None\<close>; there is none, see \<open>calculateDropPercent_total\<close>, so the body takes the
  percentage with \<open>the\<close>.
\<close>

definition takeProfitStep ::
  "(int \<Rightarrow> bool) \<Rightarrow> chain \<Rightarrow> history \<Rightarrow> Position \<Rightarrow> event list \<times> Position" where
  "takeProfitStep reached ch h pos =
     (if \<not> TakeProfitDone pos then checkTakeProfit reached ch h pos else ([], pos))"

definition stopLossStep ::
  "chain \<Rightarrow> int \<Rightarrow> history \<Rightarrow> Position \<Rightarrow> event list \<times> Position \<times> bool" where
  "stopLossStep ch slp h pos =
     (let c = GetTokenPrice (Swapper pos) (TokenAddress pos) (TokenAmount pos) in
      case query ch h c of
        None \<Rightarrow> ([(c, Failed)], pos, False)
      | Some currentPrice \<Rightarrow>
          let dropPercent = the (calculateDropPercent (BuyPriceWei pos) currentPrice) in
          if slp \<le> dropPercent then
            let (evs, pos') = executeSell ch (h @ [(c, Amount currentPrice)]) pos (TokenAmount pos)
            in ((c, Amount currentPrice) # evs, pos', True)
          else ([(c, Amount currentPrice)], pos, False))"

definition checkPosition ::
  "(int \<Rightarrow> bool) \<Rightarrow> chain \<Rightarrow> int \<Rightarrow> history \<Rightarrow> Position \<Rightarrow> event list \<times> Position \<times> bool" where
  "checkPosition reached ch slp h pos =
     (if Sold pos then ([], pos, False)
      else
        let c = GetTokenBalance (Swapper pos) (TokenAddress pos) in
        case query ch h c of
          None \<Rightarrow> ([(c, Failed)], pos, False)
        | Some balance \<Rightarrow>
            if balance \<le> 0 then ([(c, Amount balance)], pos, False)
            else
              let e1 = [(c, Amount balance)];
                  (e2, pos2) = takeProfitStep reached ch (h @ e1) (pos\<lparr>TokenAmount := balance\<rparr>);
                  (e3, pos3, del) = stopLossStep ch slp (h @ e1 @ e2) pos2
              in (e1 @ e2 @ e3, pos3, del))"

text \<open>
  Go visits the keys of a map in an order of its own choosing; \<open>ks\<close> is that order. The
  loop deletes no key but the current one and adds none, so each key of the map is
  visited once.
\<close>

fun checkPositions_loop ::
  "(int \<Rightarrow> bool) \<Rightarrow> chain \<Rightarrow> string list \<Rightarrow> history \<times> StopLossMonitor \<Rightarrow> history \<times> StopLossMonitor" where
  "checkPositions_loop reached ch [] (h, m) = (h, m)"
| "checkPositions_loop reached ch (key # ks) (h, m) =
     (case positions m key of
        None \<Rightarrow> checkPositions_loop reached ch ks (h, m)
      | Some pos \<Rightarrow>
          let (evs, pos', del) = checkPosition reached ch (stopLossPercent m) h pos in
          checkPositions_loop reached ch ks
            (h @ evs, m\<lparr>positions := (if del then (positions m)(key := None)
                                       else (positions m)(key \<mapsto> pos'))\<rparr>))"

definition checkPositions ::
  "(int \<Rightarrow> bool) \<Rightarrow> chain \<Rightarrow> string list \<Rightarrow> history \<times> StopLossMonitor \<Rightarrow> history \<times> StopLossMonitor" where
  "checkPositions reached ch ks hm = checkPositions_loop reached ch ks hm"

subsection \<open>AddPosition\<close>

definition AddPosition ::
  "(address \<Rightarrow> string) \<Rightarrow> chain \<Rightarrow> int \<Rightarrow> nat \<Rightarrow> address \<Rightarrow> int \<Rightarrow>
     history \<times> StopLossMonitor \<Rightarrow> history \<times> StopLossMonitor" where
  "AddPosition hex ch walletIndex swapper tokenAddress buyAmountWei hm =
     (let (h, m) = hm;
          c = GetTokenBalance swapper tokenAddress in
      case query ch h c of
        None \<Rightarrow> (h @ [(c, Failed)], m)
      | Some balance \<Rightarrow>
          let h1 = h @ [(c, Amount balance)] in
          if balance \<le> 0 then (h1, m)
          else
            let c2 = GetTokenPrice swapper tokenAddress balance;
                r = query ch h1 c2;
                currentPrice = (case r of None \<Rightarrow> buyAmountWei | Some p \<Rightarrow> p);
                key = positionKey hex walletIndex tokenAddress
            in (h1 @ [(c2, amount_reply r)],
                m\<lparr>positions := (positions m)(key \<mapsto>
                    \<lparr>TokenAddress = tokenAddress,
                     BuyPriceWei = currentPrice,
                     TokenAmount = balance,
                     InitialTokenAmount = balance,
                     WalletIndex = walletIndex,
                     Swapper = swapper,
                     Sold = False,
                     Approved = False,
                     TakeProfitDone = False\<rparr>)\<rparr>))"

section \<open>Runs of the monitor\<close>

text \<open>
  The monitor has two operations that touch the position set: \<^verbatim>\<open>AddPosition\<close>, called by
  the listener after a buy, and \<^verbatim>\<open>checkPositions\<close>, called on every tick with the key
  order Go picks. Both hold the same lock, so a run of the monitor is a sequence of them.
\<close>

datatype monitor_op =
    Register int nat address int
  | Tick "string list"

fun apply_op ::
  "(int \<Rightarrow> bool) \<Rightarrow> (address \<Rightarrow> string) \<Rightarrow> chain \<Rightarrow> monitor_op \<Rightarrow>
     history \<times> StopLossMonitor \<Rightarrow> history \<times> StopLossMonitor" where
  "apply_op reached hex ch (Register walletIndex swapper tokenAddress buyAmountWei) hm =
     AddPosition hex ch walletIndex swapper tokenAddress buyAmountWei hm"
| "apply_op reached hex ch (Tick ks) hm = checkPositions reached ch ks hm"

fun run_ops ::
  "(int \<Rightarrow> bool) \<Rightarrow> (address \<Rightarrow> string) \<Rightarrow> chain \<Rightarrow> monitor_op list \<Rightarrow>
     history \<times> StopLossMonitor \<Rightarrow> history \<times> StopLossMonitor" where
  "run_ops reached hex ch [] hm = hm"
| "run_ops reached hex ch (x # xs) hm = run_ops reached hex ch xs (apply_op reached hex ch x hm)"

text \<open>
  The life of one position: the loop body runs on it once per tick until a tick deletes
  it. Between two of its evaluations the monitor may evaluate and register other
  positions; \<open>others\<close> are the events those add to the history before each evaluation.
  The result holds the events of this position only. Lemma \<open>run_ops_evaluations\<close> below
  shows that this is what a run of the monitor does to the position under a key.
\<close>

fun evaluations ::
  "(int \<Rightarrow> bool) \<Rightarrow> chain \<Rightarrow> int \<Rightarrow> event list list \<Rightarrow> history \<Rightarrow> Position \<Rightarrow>
     event list \<times> Position \<times> bool" where
  "evaluations reached ch slp [] h pos = ([], pos, False)"
| "evaluations reached ch slp (others # rest) h pos =
     (let (own, pos1, del) = checkPosition reached ch slp (h @ others) pos in
      if del then (own, pos1, True)
      else
        let (later, pos2, del2) = evaluations reached ch slp rest (h @ others @ own) pos1
        in (own @ later, pos2, del2))"

section \<open>Reading the events\<close>

datatype kind = Balance | Price | Quote | Approve | Sell

fun kind_of :: "event \<Rightarrow> kind" where
  "kind_of (GetTokenBalance s a, r) = Balance"
| "kind_of (GetTokenPrice s a n, r) = Price"
| "kind_of (GetTokenPriceInUSDT s a n, r) = Quote"
| "kind_of (ApproveToken s a n, r) = Approve"
| "kind_of (SellToken s a n, r) = Sell"

text \<open>An approval that went through.\<close>

fun approve_ok :: "event \<Rightarrow> bool" where
  "approve_ok (ApproveToken s a n, TxHash tx) = True"
| "approve_ok ev = False"

text \<open>A quote that meets the take-profit price: the one event that makes take-profit fire.\<close>

fun take_profit_fired :: "(int \<Rightarrow> bool) \<Rightarrow> event \<Rightarrow> bool" where
  "take_profit_fired reached (GetTokenPriceInUSDT s a n, Amount u) = reached u"
| "take_profit_fired reached ev = False"

text \<open>The amounts passed to \<^verbatim>\<open>SellToken\<close>, in order.\<close>

fun sell_amounts :: "event list \<Rightarrow> int list" where
  "sell_amounts [] = []"
| "sell_amounts ((SellToken s a n, r) # evs) = n # sell_amounts evs"
| "sell_amounts (ev # evs) = sell_amounts evs"

text \<open>What a part of the loop body leaves alone in a position, and the flags it can only raise.\<close>

definition kept :: "Position \<Rightarrow> Position \<Rightarrow> bool" where
  "kept pos pos' \<longleftrightarrow>
     TokenAddress pos' = TokenAddress pos \<and> BuyPriceWei pos' = BuyPriceWei pos \<and>
     InitialTokenAmount pos' = InitialTokenAmount pos \<and> WalletIndex pos' = WalletIndex pos \<and>
     Swapper pos' = Swapper pos \<and> Sold pos' = Sold pos \<and>
     (Approved pos \<longrightarrow> Approved pos') \<and> (TakeProfitDone pos \<longrightarrow> TakeProfitDone pos')"

text \<open>What the events of a part of the loop body say about the flags before and after it.\<close>

definition accounted :: "(int \<Rightarrow> bool) \<Rightarrow> Position \<Rightarrow> event list \<Rightarrow> Position \<Rightarrow> bool" where
  "accounted reached pos evs pos' \<longleftrightarrow>
     length (filter approve_ok evs) = (if \<not> Approved pos \<and> Approved pos' then 1 else 0) \<and>
     (Approved pos \<longrightarrow> Approve \<notin> kind_of ` set evs) \<and>
     length (filter (take_profit_fired reached) evs) =
       (if \<not> TakeProfitDone pos \<and> TakeProfitDone pos' then 1 else 0) \<and>
     (TakeProfitDone pos \<longrightarrow> Quote \<notin> kind_of ` set evs)"

text \<open>No position of the monitor is marked as sold.\<close>

definition unsold :: "StopLossMonitor \<Rightarrow> bool" where
  "unsold m \<longleftrightarrow> (\<forall>key pos. positions m key = Some pos \<longrightarrow> \<not> Sold pos)"

section \<open>The event listener: reconnect and Start\<close>

definition maxReconnectAttempts :: nat where
  "maxReconnectAttempts = 10"

text \<open>
  One attempt of \<^verbatim>\<open>reconnect\<close>: \<^verbatim>\<open>ethclient.Dial\<close> fails, or it succeeds and the
  \<^verbatim>\<open>BlockNumber\<close> probe fails, or both succeed. \<open>dial n\<close> is what attempt \<open>n\<close> meets.
\<close>

datatype attempt = DialFailed | ProbeFailed | Connected

text \<open>
  The loop of \<^verbatim>\<open>reconnect\<close> from attempt number \<open>attempt\<close> on. The result is the error
  returned (\<open>None\<close> is Go's \<^verbatim>\<open>nil\<close>) and the attempt numbers tried, in order.
\<close>

function reconnect_loop :: "(nat \<Rightarrow> attempt) \<Rightarrow> nat \<Rightarrow> string option \<times> nat list" where
  "reconnect_loop dial attempt =
     (if attempt \<le> maxReconnectAttempts then
        (case dial attempt of
           DialFailed \<Rightarrow>
             (let (err, tried) = reconnect_loop dial (attempt + 1) in (err, attempt # tried))
         | ProbeFailed \<Rightarrow>
             (let (err, tried) = reconnect_loop dial (attempt + 1) in (err, attempt # tried))
         | Connected \<Rightarrow> (None, [attempt]))
      else (Some ''failed to reconnect after 10 attempts'', []))"
  by pat_completeness auto
termination
  by (relation "measure (\<lambda>(dial, attempt). maxReconnectAttempts + 1 - attempt)") auto

declare reconnect_loop.simps [simp del]

definition reconnect :: "(nat \<Rightarrow> attempt) \<Rightarrow> string option \<times> nat list" where
  "reconnect dial = reconnect_loop dial 1"

text \<open>
  One round of the loop of \<^verbatim>\<open>Start\<close>, as the outside world decides it: whether the
  context is cancelled at the top of the round, what \<^verbatim>\<open>subscribe\<close> returns, whether the
  context is cancelled once the subscription has ended, and what the reconnect attempts of
  this round meet.
\<close>

record round =
  cancelled :: bool
  subscribed :: "string option"
  cancelledAfter :: bool
  dials :: "nat \<Rightarrow> attempt"

text \<open>
  \<^verbatim>\<open>Start\<close> loops until it returns. On a finite list of rounds the result is \<open>None\<close> when
  the loop is still running after the last of them, \<open>Some None\<close> when it returned
  \<^verbatim>\<open>nil\<close>, and \<open>Some (Some e)\<close> when it returned the error \<open>e\<close>.
\<close>

fun Start :: "round list \<Rightarrow> string option option" where
  "Start [] = None"
| "Start (r # rs) =
     (if cancelled r then Some None
      else
        (case subscribed r of
           None \<Rightarrow> Start rs
         | Some err \<Rightarrow>
             if cancelledAfter r then Some None
             else
               (case fst (reconnect (dials r)) of
                  Some reconnErr \<Rightarrow> Some (Some reconnErr)
                | None \<Rightarrow> Start rs)))"

section \<open>Concrete inputs\<close>

text \<open>
  A token, a stand-in for \<^verbatim>\<open>Hex\<close> on it, a take-profit test (a quote of at least
  \<open>2 * 10^14\<close>, that is 0.0002 with 18 decimals), and a chain on which the wallet holds
  1000 tokens, one token unit is quoted at \<open>usdt\<close>, the whole balance is worth \<open>price\<close>,
  approvals go through and sales go through when \<open>sellOk\<close>.
\<close>

definition ex_token :: address where
  "ex_token = 0xABCD"

definition ex_hex :: "address \<Rightarrow> string" where
  "ex_hex a = ''0x000000000000000000000000000000000000abcd''"

definition ex_reached :: "int \<Rightarrow> bool" where
  "ex_reached u = (2 * 10 ^ 14 \<le> u)"

definition ex_chain :: "int \<Rightarrow> int \<Rightarrow> bool \<Rightarrow> chain" where
  "ex_chain usdt price sellOk =
     \<lparr>query = (\<lambda>h c. case c of
                  GetTokenBalance s a \<Rightarrow> Some 1000
                | GetTokenPrice s a n \<Rightarrow> Some price
                | GetTokenPriceInUSDT s a n \<Rightarrow> Some usdt
                | ApproveToken s a n \<Rightarrow> None
                | SellToken s a n \<Rightarrow> None),
      send = (\<lambda>h c. case c of
                  GetTokenBalance s a \<Rightarrow> None
                | GetTokenPrice s a n \<Rightarrow> None
                | GetTokenPriceInUSDT s a n \<Rightarrow> None
                | ApproveToken s a n \<Rightarrow> Some ''0xa1''
                | SellToken s a n \<Rightarrow> (if sellOk then Some ''0x5e'' else None))\<rparr>"

definition ex_key :: string where
  "ex_key = positionKey ex_hex 0 ex_token"

definition ex_position :: Position where
  "ex_position =
     \<lparr>TokenAddress = ex_token, BuyPriceWei = 100, TokenAmount = 1000,
      InitialTokenAmount = 1000, WalletIndex = 0, Swapper = 0,
      Sold = False, Approved = False, TakeProfitDone = False\<rparr>"

definition ex_monitor :: StopLossMonitor where
  "ex_monitor = \<lparr>positions = [ex_key \<mapsto> ex_position], stopLossPercent = 20\<rparr>"

text \<open>A chain on which every call fails, and one on which the wallet holds nothing.\<close>

definition ex_offline_chain :: chain where
  "ex_offline_chain = \<lparr>query = (\<lambda>h c. None), send = (\<lambda>h c. None)\<rparr>"

definition ex_empty_chain :: chain where
  "ex_empty_chain = \<lparr>query = (\<lambda>h c. Some 0), send = (\<lambda>h c. None)\<rparr>"

text \<open>A round of \<^verbatim>\<open>Start\<close> in which the subscription fails and no reconnect attempt succeeds.\<close>

definition ex_round :: round where
  "ex_round =
     \<lparr>cancelled = False, subscribed = Some ''subscription error'',
      cancelledAfter = False, dials = (\<lambda>n. if even n then DialFailed else ProbeFailed)\<rparr>"

section \<open>Drop percentage\<close>

lemma Int64_small: "0 \<le> x \<Longrightarrow> x \<le> 100 \<Longrightarrow> Int64 x = x"
  unfolding Int64_def
  by (simp add: sint_sbintrunc' signed_take_bit_int_eq_self)

lemma calculateDropPercent_total: "calculateDropPercent b c \<noteq> None"
  by (simp add: calculateDropPercent_def big_Div_def Let_def)

text \<open>
  Claim C2. For non-negative reference and current prices the drop percentage is
  \<open>max 0 ((referencePrice - currentPrice) * 100 / referencePrice)\<close> in exact integer
  division, and a reference price of zero gives zero without dividing.
\<close>

theorem calculateDropPercent_spec:
  "0 \<le> b \<Longrightarrow> 0 \<le> c \<Longrightarrow>
     calculateDropPercent b c = Some (max 0 ((b - c) * 100 div b)) \<and>
     calculateDropPercent 0 c = Some 0"
proof -
  assume b: "0 \<le> b" and c: "0 \<le> c"
  have zero: "calculateDropPercent 0 c = Some 0"
    by (simp add: calculateDropPercent_def)
  have main: "calculateDropPercent b c = Some (max 0 ((b - c) * 100 div b))"
  proof (cases "b = 0")
    case True
    then show ?thesis by (simp add: calculateDropPercent_def)
  next
    case False
    with b have bpos: "0 < b" by simp
    show ?thesis
    proof (cases "b - c \<le> 0")
      case True
      then have "(b - c) * 100 div b \<le> 0"
        using bpos by (simp add: div_nonpos_pos_le0 mult_le_0_iff)
      with True False show ?thesis
        by (simp add: calculateDropPercent_def Let_def max_def)
    next
      case gt: False
      then have d: "0 < b - c" by simp
      have lo: "0 \<le> (b - c) * 100 div b"
        using d bpos by (simp add: pos_imp_zdiv_nonneg_iff)
      have "(b - c) * 100 div b \<le> b * 100 div b"
        by (rule zdiv_mono1) (use c bpos in simp_all)
      moreover have "b * 100 div b = 100" using bpos by simp
      ultimately have hi: "(b - c) * 100 div b \<le> 100" by simp
      from gt False bpos lo hi show ?thesis
        by (simp add: calculateDropPercent_def Let_def big_Div_def Int64_small max_def)
    qed
  qed
  from main zero show ?thesis by simp
qed

theorem calculateDropPercent_spec_witness:
  "(0::int) \<le> 100 \<and> (0::int) \<le> 75 \<and>
   calculateDropPercent 100 75 = Some 25 \<and> calculateDropPercent 0 75 = Some 0"
  using calculateDropPercent_spec [of 100 75] by simp

section \<open>The parts of the loop body\<close>

lemma sellToken_result:
  assumes "sellToken ch h pos n = (evs, pos')"
  shows "pos' = pos"
    and "\<exists>r. evs = [(SellToken (Swapper pos) (TokenAddress pos) n, r)]"
  using assms by (auto simp: sellToken_def Let_def split: option.splits)

lemma executeSell_cases:
  assumes "executeSell ch h pos n = (evs, pos')"
  shows "(Approved pos \<and> pos' = pos \<and>
            (\<exists>r. evs = [(SellToken (Swapper pos) (TokenAddress pos) n, r)])) \<or>
         (\<not> Approved pos \<and> pos' = pos \<and>
            evs = [(ApproveToken (Swapper pos) (TokenAddress pos) maxApprove, Failed)]) \<or>
         (\<not> Approved pos \<and> pos' = pos\<lparr>Approved := True\<rparr> \<and>
            (\<exists>tx r. evs = [(ApproveToken (Swapper pos) (TokenAddress pos) maxApprove, TxHash tx),
                           (SellToken (Swapper pos) (TokenAddress pos) n, r)]))"
  using assms
  by (auto simp: executeSell_def Let_def split: option.splits if_splits prod.splits
           dest: sellToken_result)

lemma kept_refl: "kept pos pos"
  by (simp add: kept_def)

lemma kept_trans: "kept p q \<Longrightarrow> kept q r \<Longrightarrow> kept p r"
  by (simp add: kept_def)

lemma accounted_Nil: "accounted reached pos [] pos"
  by (simp add: accounted_def)

lemma accounted_append:
  assumes "accounted reached p xs q" and "accounted reached q ys r" and "kept p q" and "kept q r"
  shows "accounted reached p (xs @ ys) r"
  using assms by (auto simp: accounted_def kept_def)

lemma executeSell_kept:
  assumes "executeSell ch h pos n = (evs, pos')"
  shows "kept pos pos'" and "TokenAmount pos' = TokenAmount pos"
    and "TakeProfitDone pos' = TakeProfitDone pos"
  using executeSell_cases [OF assms] by (auto simp: kept_def)

lemma executeSell_accounted:
  assumes "executeSell ch h pos n = (evs, pos')"
  shows "accounted reached pos evs pos'"
  using executeSell_cases [OF assms] by (auto simp: accounted_def)


lemma checkTakeProfit_cases:
  assumes "checkTakeProfit reached ch h pos = (evs, pos')"
  shows "\<exists>c. c = GetTokenPriceInUSDT (Swapper pos) (TokenAddress pos) (oneToken pos) \<and>
        ((query ch h c = None \<and> evs = [(c, Failed)] \<and> pos' = pos) \<or>
         (\<exists>u. query ch h c = Some u \<and> \<not> reached u \<and> evs = [(c, Amount u)] \<and> pos' = pos) \<or>
         (\<exists>u. query ch h c = Some u \<and> reached u \<and> sellAmount pos \<le> 0 \<and>
               evs = [(c, Amount u)] \<and> pos' = pos\<lparr>TakeProfitDone := True\<rparr>) \<or>
         (\<exists>u e2 p2. query ch h c = Some u \<and> reached u \<and> 0 < sellAmount pos \<and>
               executeSell ch (h @ [(c, Amount u)]) pos (sellAmount pos) = (e2, p2) \<and>
               evs = (c, Amount u) # e2 \<and> pos' = p2\<lparr>TakeProfitDone := True\<rparr>))"
  using assms unfolding checkTakeProfit_def Let_def
  by (auto split: option.splits if_splits prod.splits)

lemma checkTakeProfit_kept:
  assumes "checkTakeProfit reached ch h pos = (evs, pos')"
  shows "kept pos pos'" and "TokenAmount pos' = TokenAmount pos"
proof -
  from checkTakeProfit_cases [OF assms]
  consider (keep) "pos' = pos" | (zero) "pos' = pos\<lparr>TakeProfitDone := True\<rparr>"
    | (sell) h2 e2 p2 where "executeSell ch h2 pos (sellAmount pos) = (e2, p2)"
        "pos' = p2\<lparr>TakeProfitDone := True\<rparr>"
    by auto
  then have "kept pos pos' \<and> TokenAmount pos' = TokenAmount pos"
  proof cases
    case keep
    then show ?thesis by (simp add: kept_refl)
  next
    case zero
    then show ?thesis by (simp add: kept_def)
  next
    case sell
    from executeSell_kept(1,2) [OF sell(1)] sell(2) show ?thesis by (simp add: kept_def)
  qed
  then show "kept pos pos'" and "TokenAmount pos' = TokenAmount pos" by simp_all
qed

lemma checkTakeProfit_accounted:
  assumes "checkTakeProfit reached ch h pos = (evs, pos')" and "\<not> TakeProfitDone pos"
  shows "accounted reached pos evs pos'"
proof -
  from checkTakeProfit_cases [OF assms(1)]
  consider (none) r where "evs = [(GetTokenPriceInUSDT (Swapper pos) (TokenAddress pos) (oneToken pos), r)]"
        "pos' = pos" "\<forall>u. r = Amount u \<longrightarrow> \<not> reached u"
    | (zero) u where "evs = [(GetTokenPriceInUSDT (Swapper pos) (TokenAddress pos) (oneToken pos), Amount u)]"
        "pos' = pos\<lparr>TakeProfitDone := True\<rparr>" "reached u"
    | (sell) u e2 p2 where "evs = (GetTokenPriceInUSDT (Swapper pos) (TokenAddress pos) (oneToken pos), Amount u) # e2"
        "pos' = p2\<lparr>TakeProfitDone := True\<rparr>" "reached u"
        "executeSell ch (h @ [(GetTokenPriceInUSDT (Swapper pos) (TokenAddress pos) (oneToken pos), Amount u)]) pos (sellAmount pos) = (e2, p2)"
    by auto
  then show ?thesis
  proof cases
    case none
    with assms(2) show ?thesis by (cases r) (auto simp: accounted_def)
  next
    case zero
    with assms(2) show ?thesis by (auto simp: accounted_def)
  next
    case sell
    from executeSell_accounted [OF sell(4), of reached] executeSell_kept [OF sell(4)] sell(1,2,3) assms(2)
    show ?thesis by (auto simp: accounted_def kept_def)
  qed
qed

lemma takeProfitStep_kept:
  assumes "takeProfitStep reached ch h pos = (evs, pos')"
  shows "kept pos pos'" and "TokenAmount pos' = TokenAmount pos"
  using assms checkTakeProfit_kept [of reached ch h pos evs pos']
  by (auto simp: takeProfitStep_def kept_refl split: if_splits)

lemma takeProfitStep_accounted:
  assumes "takeProfitStep reached ch h pos = (evs, pos')"
  shows "accounted reached pos evs pos'"
  using assms checkTakeProfit_accounted [of reached ch h pos evs pos']
  by (auto simp: takeProfitStep_def accounted_Nil split: if_splits)

lemma stopLossStep_cases:
  assumes "stopLossStep ch slp h pos = (evs, pos', del)"
  shows "\<exists>c. c = GetTokenPrice (Swapper pos) (TokenAddress pos) (TokenAmount pos) \<and>
     ((query ch h c = None \<and> evs = [(c, Failed)] \<and> pos' = pos \<and> \<not> del) \<or>
      (\<exists>cp. query ch h c = Some cp \<and> \<not> slp \<le> the (calculateDropPercent (BuyPriceWei pos) cp) \<and>
            evs = [(c, Amount cp)] \<and> pos' = pos \<and> \<not> del) \<or>
      (\<exists>cp e4. query ch h c = Some cp \<and> slp \<le> the (calculateDropPercent (BuyPriceWei pos) cp) \<and>
            executeSell ch (h @ [(c, Amount cp)]) pos (TokenAmount pos) = (e4, pos') \<and>
            evs = (c, Amount cp) # e4 \<and> del))"
  using assms unfolding stopLossStep_def Let_def
  by (auto split: option.splits if_splits prod.splits)

lemma stopLossStep_kept:
  assumes "stopLossStep ch slp h pos = (evs, pos', del)"
  shows "kept pos pos'" and "TokenAmount pos' = TokenAmount pos"
proof -
  from stopLossStep_cases [OF assms]
  consider (keep) "pos' = pos"
    | (sell) h4 e4 where "executeSell ch h4 pos (TokenAmount pos) = (e4, pos')"
    by auto
  then have "kept pos pos' \<and> TokenAmount pos' = TokenAmount pos"
  proof cases
    case keep
    then show ?thesis by (simp add: kept_refl)
  next
    case sell
    from executeSell_kept(1,2) [OF sell] show ?thesis by simp
  qed
  then show "kept pos pos'" and "TokenAmount pos' = TokenAmount pos" by simp_all
qed

lemma stopLossStep_accounted:
  assumes "stopLossStep ch slp h pos = (evs, pos', del)"
  shows "accounted reached pos evs pos'"
proof -
  from stopLossStep_cases [OF assms]
  consider (keep) r where "evs = [(GetTokenPrice (Swapper pos) (TokenAddress pos) (TokenAmount pos), r)]" "pos' = pos"
    | (sell) cp e4 where "evs = (GetTokenPrice (Swapper pos) (TokenAddress pos) (TokenAmount pos), Amount cp) # e4"
        "executeSell ch (h @ [(GetTokenPrice (Swapper pos) (TokenAddress pos) (TokenAmount pos), Amount cp)]) pos (TokenAmount pos) = (e4, pos')"
    by auto
  then show ?thesis
  proof cases
    case keep
    then show ?thesis by (auto simp: accounted_def)
  next
    case sell
    from executeSell_accounted [OF sell(2), of reached] executeSell_kept [OF sell(2)] sell(1)
    show ?thesis by (auto simp: accounted_def kept_def)
  qed
qed


lemma checkPosition_cases:
  assumes "checkPosition reached ch slp h pos = (evs, pos', del)"
  shows "\<exists>c. c = GetTokenBalance (Swapper pos) (TokenAddress pos) \<and>
     ((Sold pos \<and> evs = [] \<and> pos' = pos \<and> \<not> del) \<or>
      (\<not> Sold pos \<and> query ch h c = None \<and> evs = [(c, Failed)] \<and> pos' = pos \<and> \<not> del) \<or>
      (\<exists>b. \<not> Sold pos \<and> query ch h c = Some b \<and> b \<le> 0 \<and> evs = [(c, Amount b)] \<and>
            pos' = pos \<and> \<not> del) \<or>
      (\<exists>b e2 pos2 e3. \<not> Sold pos \<and> query ch h c = Some b \<and> 0 < b \<and>
            takeProfitStep reached ch (h @ [(c, Amount b)]) (pos\<lparr>TokenAmount := b\<rparr>) = (e2, pos2) \<and>
            stopLossStep ch slp (h @ (c, Amount b) # e2) pos2 = (e3, pos', del) \<and>
            evs = (c, Amount b) # e2 @ e3))"
  using assms unfolding checkPosition_def Let_def
  by (auto split: option.splits if_splits prod.splits)

lemma checkPosition_kept:
  assumes "checkPosition reached ch slp h pos = (evs, pos', del)"
  shows "kept pos pos'"
proof -
  from checkPosition_cases [OF assms]
  consider (skip) "pos' = pos"
    | (eval) b h1 h2 e2 pos2 e3 where
        "takeProfitStep reached ch h1 (pos\<lparr>TokenAmount := b\<rparr>) = (e2, pos2)"
        "stopLossStep ch slp h2 pos2 = (e3, pos', del)"
    by auto
  then show ?thesis
  proof cases
    case skip
    then show ?thesis by (simp add: kept_refl)
  next
    case eval
    have "kept pos (pos\<lparr>TokenAmount := b\<rparr>)" by (simp add: kept_def)
    then have "kept pos pos2"
      using takeProfitStep_kept(1) [OF eval(1)] by (rule kept_trans)
    then show ?thesis
      using stopLossStep_kept(1) [OF eval(2)] by (rule kept_trans)
  qed
qed

lemma accounted_Cons:
  assumes "accounted reached p evs q"
    and "kind_of ev \<noteq> Approve" and "kind_of ev \<noteq> Quote"
  shows "accounted reached p (ev # evs) q"
proof -
  obtain c r where ev: "ev = (c, r)" by (cases ev) auto
  from assms(2,3) have "\<not> approve_ok ev \<and> \<not> take_profit_fired reached ev"
    unfolding ev by (cases c; cases r) simp_all
  with assms show ?thesis by (simp add: accounted_def)
qed

lemma checkPosition_accounted:
  assumes "checkPosition reached ch slp h pos = (evs, pos', del)"
  shows "accounted reached pos evs pos'"
proof -
  from checkPosition_cases [OF assms]
  consider (skip) "pos' = pos" "evs = [] \<or> (\<exists>r. evs = [(GetTokenBalance (Swapper pos) (TokenAddress pos), r)])"
    | (eval) b h1 h2 e2 pos2 e3 where
        "takeProfitStep reached ch h1 (pos\<lparr>TokenAmount := b\<rparr>) = (e2, pos2)"
        "stopLossStep ch slp h2 pos2 = (e3, pos', del)"
        "evs = (GetTokenBalance (Swapper pos) (TokenAddress pos), Amount b) # e2 @ e3"
    by auto
  then show ?thesis
  proof cases
    case skip
    then show ?thesis by (auto simp: accounted_def)
  next
    case eval
    let ?p1 = "pos\<lparr>TokenAmount := b\<rparr>"
    have "accounted reached ?p1 (e2 @ e3) pos'"
      using takeProfitStep_accounted [OF eval(1)] stopLossStep_accounted [OF eval(2)]
        takeProfitStep_kept(1) [OF eval(1)] stopLossStep_kept(1) [OF eval(2)]
      by (rule accounted_append)
    then have "accounted reached pos (e2 @ e3) pos'" by (simp add: accounted_def)
    then show ?thesis unfolding eval(3) by (rule accounted_Cons) simp_all
  qed
qed


lemma sell_amounts_append: "sell_amounts (xs @ ys) = sell_amounts xs @ sell_amounts ys"
  by (induction xs rule: sell_amounts.induct) simp_all

lemma executeSell_trace:
  assumes "executeSell ch h pos n = (evs, pos')"
  shows "kind_of ` set evs \<subseteq> {Approve, Sell}" and "set (sell_amounts evs) \<subseteq> {n}"
  using executeSell_cases [OF assms] by auto

lemma checkTakeProfit_trace:
  assumes "checkTakeProfit reached ch h pos = (evs, pos')"
  shows "kind_of ` set evs \<subseteq> {Quote, Approve, Sell}" and "set (sell_amounts evs) \<subseteq> {sellAmount pos}"
proof -
  from checkTakeProfit_cases [OF assms]
  consider (single) r where "evs = [(GetTokenPriceInUSDT (Swapper pos) (TokenAddress pos) (oneToken pos), r)]"
    | (sell) r h2 e2 p2 where
        "evs = (GetTokenPriceInUSDT (Swapper pos) (TokenAddress pos) (oneToken pos), r) # e2"
        "executeSell ch h2 pos (sellAmount pos) = (e2, p2)"
    by auto
  then have "kind_of ` set evs \<subseteq> {Quote, Approve, Sell} \<and> set (sell_amounts evs) \<subseteq> {sellAmount pos}"
  proof cases
    case single
    then show ?thesis by simp
  next
    case sell
    from executeSell_trace [OF sell(2)] sell(1) show ?thesis by auto
  qed
  then show "kind_of ` set evs \<subseteq> {Quote, Approve, Sell}"
    and "set (sell_amounts evs) \<subseteq> {sellAmount pos}" by simp_all
qed

lemma takeProfitStep_trace:
  assumes "takeProfitStep reached ch h pos = (evs, pos')"
  shows "kind_of ` set evs \<subseteq> {Quote, Approve, Sell}" and "set (sell_amounts evs) \<subseteq> {sellAmount pos}"
  using assms checkTakeProfit_trace [of reached ch h pos evs pos']
  by (auto simp: takeProfitStep_def split: if_splits)

lemma stopLossStep_trace:
  assumes "stopLossStep ch slp h pos = (evs, pos', del)"
  shows "\<exists>r e4. evs = (GetTokenPrice (Swapper pos) (TokenAddress pos) (TokenAmount pos), r) # e4 \<and>
           kind_of ` set e4 \<subseteq> {Approve, Sell} \<and> set (sell_amounts e4) \<subseteq> {TokenAmount pos} \<and>
           (del \<longleftrightarrow> (\<exists>cp. r = Amount cp \<and> slp \<le> the (calculateDropPercent (BuyPriceWei pos) cp)))"
proof -
  let ?c = "GetTokenPrice (Swapper pos) (TokenAddress pos) (TokenAmount pos)"
  from stopLossStep_cases [OF assms]
  consider (fail) "evs = [(?c, Failed)]" "\<not> del"
    | (keep) cp where "evs = [(?c, Amount cp)]" "\<not> del"
        "\<not> slp \<le> the (calculateDropPercent (BuyPriceWei pos) cp)"
    | (sell) cp h4 e4 where "evs = (?c, Amount cp) # e4" "del"
        "slp \<le> the (calculateDropPercent (BuyPriceWei pos) cp)"
        "executeSell ch h4 pos (TokenAmount pos) = (e4, pos')"
    by auto
  then show ?thesis
  proof cases
    case fail
    then show ?thesis by simp
  next
    case keep
    then show ?thesis by simp
  next
    case sell
    from executeSell_trace [OF sell(4)] sell(1,2,3) show ?thesis by simp
  qed
qed

lemma sellAmount_le: "sellAmount pos \<le> TokenAmount pos"
  by (simp add: sellAmount_def Let_def)

lemma checkPosition_trace:
  assumes "checkPosition reached ch slp h pos = (evs, pos', del)"
  shows "(\<not> del \<and> pos' = pos \<and> Price \<notin> kind_of ` set evs \<and> sell_amounts evs = []) \<or>
         (\<exists>b e2 r e4.
            evs = (GetTokenBalance (Swapper pos) (TokenAddress pos), Amount b) # e2 @
                  (GetTokenPrice (Swapper pos) (TokenAddress pos) b, r) # e4 \<and>
            0 < b \<and> TokenAmount pos' = b \<and>
            kind_of ` set e2 \<subseteq> {Quote, Approve, Sell} \<and>
            kind_of ` set e4 \<subseteq> {Approve, Sell} \<and>
            set (sell_amounts e2) \<subseteq> {sellAmount (pos\<lparr>TokenAmount := b\<rparr>)} \<and>
            set (sell_amounts e4) \<subseteq> {b} \<and>
            (del \<longleftrightarrow> (\<exists>cp. r = Amount cp \<and> slp \<le> the (calculateDropPercent (BuyPriceWei pos) cp))))"
proof -
  let ?c = "GetTokenBalance (Swapper pos) (TokenAddress pos)"
  from checkPosition_cases [OF assms]
  consider (skip) "pos' = pos" "\<not> del" "evs = [] \<or> (\<exists>r. evs = [(?c, r)])"
    | (eval) b h1 h2 e2 pos2 e3 where "0 < b"
        "takeProfitStep reached ch h1 (pos\<lparr>TokenAmount := b\<rparr>) = (e2, pos2)"
        "stopLossStep ch slp h2 pos2 = (e3, pos', del)"
        "evs = (?c, Amount b) # e2 @ e3"
    by auto
  then show ?thesis
  proof cases
    case skip
    then show ?thesis by auto
  next
    case eval
    note k2 = takeProfitStep_kept [OF eval(2)]
    note k3 = stopLossStep_kept [OF eval(3)]
    from k2 have f2: "Swapper pos2 = Swapper pos" "TokenAddress pos2 = TokenAddress pos"
      "BuyPriceWei pos2 = BuyPriceWei pos" "TokenAmount pos2 = b"
      by (simp_all add: kept_def)
    from stopLossStep_trace [OF eval(3)] obtain r e4 where
      e3: "e3 = (GetTokenPrice (Swapper pos) (TokenAddress pos) b, r) # e4"
      and k4: "kind_of ` set e4 \<subseteq> {Approve, Sell}"
      and s4: "set (sell_amounts e4) \<subseteq> {b}"
      and d: "del \<longleftrightarrow> (\<exists>cp. r = Amount cp \<and> slp \<le> the (calculateDropPercent (BuyPriceWei pos) cp))"
      unfolding f2 by blast
    have "TokenAmount pos' = b" using k3(2) f2(4) by simp
    with eval(1,4) e3 k4 s4 d takeProfitStep_trace [OF eval(2)] show ?thesis
      by blast
  qed
qed

section \<open>Ticks, lives and runs\<close>

lemma evaluations_kept_accounted:
  "evaluations reached ch slp others h pos = (evs, pos', del) \<Longrightarrow>
     kept pos pos' \<and> accounted reached pos evs pos'"
proof (induction others arbitrary: h pos evs pos' del)
  case Nil
  then show ?case by (simp add: kept_refl accounted_Nil)
next
  case (Cons other rest)
  obtain own pos1 del1 where step: "checkPosition reached ch slp (h @ other) pos = (own, pos1, del1)"
    by (cases "checkPosition reached ch slp (h @ other) pos") auto
  note k1 = checkPosition_kept [OF step]
  note a1 = checkPosition_accounted [OF step]
  show ?case
  proof (cases del1)
    case True
    with Cons.prems step have "evs = own" "pos' = pos1" by simp_all
    with k1 a1 show ?thesis by simp
  next
    case False
    obtain later pos2 del2 where rest:
      "evaluations reached ch slp rest (h @ other @ own) pos1 = (later, pos2, del2)"
      by (cases "evaluations reached ch slp rest (h @ other @ own) pos1") auto
    with Cons.prems step False have eq: "evs = own @ later" "pos' = pos2" by simp_all
    from Cons.IH [OF rest] have k2: "kept pos1 pos2" and a2: "accounted reached pos1 later pos2"
      by simp_all
    from k1 k2 have "kept pos pos2" by (rule kept_trans)
    moreover from a1 a2 k1 k2 have "accounted reached pos (own @ later) pos2"
      by (rule accounted_append)
    ultimately show ?thesis using eq by simp
  qed
qed

lemma checkPositions_loop_other:
  "key \<notin> set ks \<Longrightarrow> checkPositions_loop reached ch ks (h, m) = (h', m') \<Longrightarrow>
     positions m' key = positions m key \<and> stopLossPercent m' = stopLossPercent m"
proof (induction ks arbitrary: h m)
  case Nil
  then show ?case by simp
next
  case (Cons k ks)
  show ?case
  proof (cases "positions m k")
    case None
    with Cons show ?thesis by simp
  next
    case (Some p)
    obtain evs p' del where step: "checkPosition reached ch (stopLossPercent m) h p = (evs, p', del)"
      by (cases "checkPosition reached ch (stopLossPercent m) h p") auto
    let ?m1 = "m\<lparr>positions := (if del then (positions m)(k := None) else (positions m)(k \<mapsto> p'))\<rparr>"
    from Cons.prems Some step have run: "checkPositions_loop reached ch ks (h @ evs, ?m1) = (h', m')"
      by simp
    from Cons.prems(1) have "key \<notin> set ks" "key \<noteq> k" by auto
    from Cons.IH [OF this(1) run] this(2) show ?thesis by simp
  qed
qed

lemma unsold_checkPositions_loop:
  "unsold m \<Longrightarrow> checkPositions_loop reached ch ks (h, m) = (h', m') \<Longrightarrow> unsold m'"
proof (induction ks arbitrary: h m)
  case Nil
  then show ?case by simp
next
  case (Cons k ks)
  show ?case
  proof (cases "positions m k")
    case None
    with Cons show ?thesis by simp
  next
    case (Some p)
    obtain evs p' del where step: "checkPosition reached ch (stopLossPercent m) h p = (evs, p', del)"
      by (cases "checkPosition reached ch (stopLossPercent m) h p") auto
    let ?m1 = "m\<lparr>positions := (if del then (positions m)(k := None) else (positions m)(k \<mapsto> p'))\<rparr>"
    from Cons.prems Some step have run: "checkPositions_loop reached ch ks (h @ evs, ?m1) = (h', m')"
      by simp
    from Cons.prems(1) Some have "\<not> Sold p" by (simp add: unsold_def)
    with checkPosition_kept [OF step] have "\<not> Sold p'" by (simp add: kept_def)
    with Cons.prems(1) have "unsold ?m1" by (simp add: unsold_def)
    from Cons.IH [OF this run] show ?thesis .
  qed
qed

lemma unsold_AddPosition:
  "unsold m \<Longrightarrow> AddPosition hex ch w s a n (h, m) = (h', m') \<Longrightarrow> unsold m'"
  by (auto simp: AddPosition_def Let_def unsold_def split: option.splits if_splits)

lemma unsold_run_ops:
  "unsold m \<Longrightarrow> run_ops reached hex ch ops (h, m) = (h', m') \<Longrightarrow> unsold m'"
proof (induction ops arbitrary: h m)
  case Nil
  then show ?case by simp
next
  case (Cons x xs)
  obtain h1 m1 where step: "apply_op reached hex ch x (h, m) = (h1, m1)"
    by (cases "apply_op reached hex ch x (h, m)") auto
  have "unsold m1"
  proof (cases x)
    case (Register w s a n)
    with step Cons.prems(1) show ?thesis by (auto dest: unsold_AddPosition)
  next
    case (Tick ks)
    with step Cons.prems(1) show ?thesis
      by (auto simp: checkPositions_def dest: unsold_checkPositions_loop)
  qed
  moreover from Cons.prems(2) step have "run_ops reached hex ch xs (h1, m1) = (h', m')" by simp
  ultimately show ?case by (rule Cons.IH)
qed

lemma checkPositions_loop_history:
  "checkPositions_loop reached ch ks (h, m) = (h', m') \<Longrightarrow> \<exists>evs. h' = h @ evs"
proof (induction ks arbitrary: h m)
  case Nil
  then show ?case by simp
next
  case (Cons k ks)
  show ?case
  proof (cases "positions m k")
    case None
    with Cons show ?thesis by simp
  next
    case (Some p)
    obtain evs p' del where step: "checkPosition reached ch (stopLossPercent m) h p = (evs, p', del)"
      by (cases "checkPosition reached ch (stopLossPercent m) h p") auto
    let ?m1 = "m\<lparr>positions := (if del then (positions m)(k := None) else (positions m)(k \<mapsto> p'))\<rparr>"
    from Cons.prems Some step have run: "checkPositions_loop reached ch ks (h @ evs, ?m1) = (h', m')"
      by (cases del) simp_all
    from Cons.IH [OF run] show ?thesis by auto
  qed
qed

lemma checkPositions_loop_visit:
  "distinct ks \<Longrightarrow> key \<in> set ks \<Longrightarrow> positions m key = Some pos \<Longrightarrow>
   checkPositions_loop reached ch ks (h, m) = (h', m') \<Longrightarrow>
     \<exists>before evs after pos' del.
        checkPosition reached ch (stopLossPercent m) (h @ before) pos = (evs, pos', del) \<and>
        h' = h @ before @ evs @ after \<and>
        positions m' key = (if del then None else Some pos')"
proof (induction ks arbitrary: h m)
  case Nil
  then show ?case by simp
next
  case (Cons k ks)
  show ?case
  proof (cases "k = key")
    case True
    obtain evs p' del where step: "checkPosition reached ch (stopLossPercent m) h pos = (evs, p', del)"
      by (cases "checkPosition reached ch (stopLossPercent m) h pos") auto
    let ?m1 = "m\<lparr>positions := (if del then (positions m)(k := None) else (positions m)(k \<mapsto> p'))\<rparr>"
    from Cons.prems True step have run: "checkPositions_loop reached ch ks (h @ evs, ?m1) = (h', m')"
      by (cases del) simp_all
    from Cons.prems(1) True have "key \<notin> set ks" by simp
    from checkPositions_loop_other [OF this run] True
    have "positions m' key = (if del then None else Some p')" by simp
    moreover from checkPositions_loop_history [OF run] obtain after where "h' = h @ [] @ evs @ after"
      by auto
    moreover from step have "checkPosition reached ch (stopLossPercent m) (h @ []) pos = (evs, p', del)"
      by simp
    ultimately show ?thesis by blast
  next
    case False
    with Cons.prems have in_ks: "key \<in> set ks" and d: "distinct ks" by simp_all
    show ?thesis
    proof (cases "positions m k")
      case None
      with Cons.prems have "checkPositions_loop reached ch ks (h, m) = (h', m')" by simp
      from Cons.IH [OF d in_ks Cons.prems(3) this] show ?thesis .
    next
      case (Some p)
      obtain e p' del where step: "checkPosition reached ch (stopLossPercent m) h p = (e, p', del)"
        by (cases "checkPosition reached ch (stopLossPercent m) h p") auto
      let ?m1 = "m\<lparr>positions := (if del then (positions m)(k := None) else (positions m)(k \<mapsto> p'))\<rparr>"
      from Cons.prems Some step have run: "checkPositions_loop reached ch ks (h @ e, ?m1) = (h', m')"
        by (cases del) simp_all
      from False Cons.prems(3) have "positions ?m1 key = Some pos" by simp
      from Cons.IH [OF d in_ks this run] obtain before evs after pos' del' where
        "checkPosition reached ch (stopLossPercent m) ((h @ e) @ before) pos = (evs, pos', del')"
        "h' = (h @ e) @ before @ evs @ after"
        "positions m' key = (if del' then None else Some pos')"
        by auto
      then have "checkPosition reached ch (stopLossPercent m) (h @ (e @ before)) pos = (evs, pos', del')"
        "h' = h @ (e @ before) @ evs @ after"
        "positions m' key = (if del' then None else Some pos')"
        by simp_all
      then show ?thesis by blast
    qed
  qed
qed

lemma no_kind:
  assumes "kind_of ` set evs \<subseteq> K" and "kind_of ev \<notin> K"
  shows "ev \<notin> set evs"
  using assms by auto

lemma checkPosition_del_iff:
  assumes "checkPosition reached ch slp h pos = (evs, pos', del)"
  shows "del \<longleftrightarrow> (\<exists>n cp. (GetTokenPrice (Swapper pos) (TokenAddress pos) n, Amount cp) \<in> set evs \<and>
                         slp \<le> the (calculateDropPercent (BuyPriceWei pos) cp))"
    and "(GetTokenBalance (Swapper pos) (TokenAddress pos), Failed) \<in> set evs \<Longrightarrow> \<not> del"
    and "(GetTokenBalance (Swapper pos) (TokenAddress pos), Amount b) \<in> set evs \<Longrightarrow> b \<le> 0 \<Longrightarrow> \<not> del"
    and "(GetTokenPrice (Swapper pos) (TokenAddress pos) n, Failed) \<in> set evs \<Longrightarrow> \<not> del"
proof -
  let ?bal = "GetTokenBalance (Swapper pos) (TokenAddress pos)"
  let ?price = "GetTokenPrice (Swapper pos) (TokenAddress pos)"
  let ?hit = "\<lambda>cp. slp \<le> the (calculateDropPercent (BuyPriceWei pos) cp)"
  from checkPosition_trace [OF assms]
  consider (skip) "\<not> del" "Price \<notin> kind_of ` set evs"
    | (eval) b0 e2 r e4 where "evs = (?bal, Amount b0) # e2 @ (?price b0, r) # e4" "0 < b0"
        "kind_of ` set e2 \<subseteq> {Quote, Approve, Sell}" "kind_of ` set e4 \<subseteq> {Approve, Sell}"
        "del \<longleftrightarrow> (\<exists>cp. r = Amount cp \<and> ?hit cp)"
    by blast
  then have "(del \<longleftrightarrow> (\<exists>n cp. (?price n, Amount cp) \<in> set evs \<and> ?hit cp)) \<and>
      ((?bal, Failed) \<in> set evs \<longrightarrow> \<not> del) \<and>
      ((?bal, Amount b) \<in> set evs \<and> b \<le> 0 \<longrightarrow> \<not> del) \<and>
      ((?price n, Failed) \<in> set evs \<longrightarrow> \<not> del)"
  proof cases
    case skip
    have "(?price k, x) \<notin> set evs" for k x
      using skip(2) by force
    with skip(1) show ?thesis by simp
  next
    case eval
    have n2: "(?price k, x) \<notin> set e2" "(?bal, x) \<notin> set e2" for k x
      by (rule no_kind [OF eval(3)], simp)+
    have n4: "(?price k, x) \<notin> set e4" "(?bal, x) \<notin> set e4" for k x
      by (rule no_kind [OF eval(4)], simp)+
    have price: "(?price k, x) \<in> set evs \<longleftrightarrow> k = b0 \<and> x = r" for k x
      unfolding eval(1) using n2 n4 by auto
    have bal: "(?bal, x) \<in> set evs \<longleftrightarrow> x = Amount b0" for x
      unfolding eval(1) using n2 n4 by auto
    show ?thesis
      unfolding price bal using eval(2,5) by auto
  qed
  then show "del \<longleftrightarrow> (\<exists>n cp. (?price n, Amount cp) \<in> set evs \<and> ?hit cp)"
    and "(?bal, Failed) \<in> set evs \<Longrightarrow> \<not> del"
    and "(?bal, Amount b) \<in> set evs \<Longrightarrow> b \<le> 0 \<Longrightarrow> \<not> del"
    and "(?price n, Failed) \<in> set evs \<Longrightarrow> \<not> del"
    by blast+
qed

section \<open>Ticks on the concrete inputs\<close>

lemmas ex_defs = checkPosition_def takeProfitStep_def checkTakeProfit_def stopLossStep_def
      executeSell_def sellToken_def ex_chain_def ex_position_def ex_reached_def oneToken_def
      sellAmount_def TakeProfitSellPercent_def calculateDropPercent_def big_Div_def Int64_def Let_def

lemma ex_tick_failed_sell:
  "checkPosition ex_reached (ex_chain 100000000000000 75 False) 20 [] ex_position =
     ([(GetTokenBalance 0 ex_token, Amount 1000),
       (GetTokenPriceInUSDT 0 ex_token 1000, Amount 100000000000000),
       (GetTokenPrice 0 ex_token 1000, Amount 75),
       (ApproveToken 0 ex_token maxApprove, TxHash ''0xa1''),
       (SellToken 0 ex_token 1000, Failed)],
      ex_position\<lparr>Approved := True\<rparr>, True)"
  by (simp add: ex_defs)

lemma ex_tick_both_rules:
  "checkPosition ex_reached (ex_chain 300000000000000 75 True) 20 [] ex_position =
     ([(GetTokenBalance 0 ex_token, Amount 1000),
       (GetTokenPriceInUSDT 0 ex_token 1000, Amount 300000000000000),
       (ApproveToken 0 ex_token maxApprove, TxHash ''0xa1''),
       (SellToken 0 ex_token 700, TxHash ''0x5e''),
       (GetTokenPrice 0 ex_token 1000, Amount 75),
       (SellToken 0 ex_token 1000, TxHash ''0x5e'')],
      ex_position\<lparr>Approved := True, TakeProfitDone := True\<rparr>, True)"
  by (simp add: ex_defs)

lemma ex_tick_take_profit:
  "checkPosition ex_reached (ex_chain 300000000000000 100 True) 20 [] ex_position =
     ([(GetTokenBalance 0 ex_token, Amount 1000),
       (GetTokenPriceInUSDT 0 ex_token 1000, Amount 300000000000000),
       (ApproveToken 0 ex_token maxApprove, TxHash ''0xa1''),
       (SellToken 0 ex_token 700, TxHash ''0x5e''),
       (GetTokenPrice 0 ex_token 1000, Amount 100)],
      ex_position\<lparr>Approved := True, TakeProfitDone := True\<rparr>, False)"
  by (simp add: ex_defs)

section \<open>Removal from the live set\<close>

text \<open>
  Claim C1, as amended. On a tick that visits a live position, the loop body runs on it
  once, and the position is removed exactly when that run got a price whose drop
  percentage reaches the stop-loss threshold, whether or not the approval or the sale
  that follows succeeds. A failed balance query, a balance that is not positive and a
  failed price query leave the position in the live set.
\<close>

theorem position_removed_iff_stop_loss:
  assumes "distinct ks" and "key \<in> set ks" and "positions m key = Some pos"
    and "checkPositions reached ch ks (h, m) = (h', m')"
  shows "\<exists>before evs after pos' del.
           checkPosition reached ch (stopLossPercent m) (h @ before) pos = (evs, pos', del) \<and>
           h' = h @ before @ evs @ after \<and>
           positions m' key = (if del then None else Some pos') \<and>
           (del \<longleftrightarrow>
              (\<exists>n cp. (GetTokenPrice (Swapper pos) (TokenAddress pos) n, Amount cp) \<in> set evs \<and>
                       stopLossPercent m \<le> the (calculateDropPercent (BuyPriceWei pos) cp))) \<and>
           ((GetTokenBalance (Swapper pos) (TokenAddress pos), Failed) \<in> set evs \<longrightarrow> \<not> del) \<and>
           ((\<exists>b. (GetTokenBalance (Swapper pos) (TokenAddress pos), Amount b) \<in> set evs \<and> b \<le> 0)
              \<longrightarrow> \<not> del) \<and>
           ((\<exists>n. (GetTokenPrice (Swapper pos) (TokenAddress pos) n, Failed) \<in> set evs) \<longrightarrow> \<not> del)"
proof -
  from assms(4) have "checkPositions_loop reached ch ks (h, m) = (h', m')"
    by (simp add: checkPositions_def)
  from checkPositions_loop_visit [OF assms(1,2,3) this]
  obtain before evs after pos' del where
    run: "checkPosition reached ch (stopLossPercent m) (h @ before) pos = (evs, pos', del)"
    and rest: "h' = h @ before @ evs @ after" "positions m' key = (if del then None else Some pos')"
    by blast
  from checkPosition_del_iff [OF run] run rest show ?thesis
    by blast
qed

theorem position_removed_iff_stop_loss_witness:
  "distinct [ex_key] \<and> ex_key \<in> set [ex_key] \<and> positions ex_monitor ex_key = Some ex_position \<and>
   (\<exists>before evs after pos' del.
      checkPosition ex_reached (ex_chain 300000000000000 75 True) (stopLossPercent ex_monitor)
        ([] @ before) ex_position = (evs, pos', del) \<and>
      fst (checkPositions ex_reached (ex_chain 300000000000000 75 True) [ex_key] ([], ex_monitor)) =
        [] @ before @ evs @ after \<and>
      positions (snd (checkPositions ex_reached (ex_chain 300000000000000 75 True) [ex_key] ([], ex_monitor)))
        ex_key = (if del then None else Some pos') \<and>
      (del \<longleftrightarrow>
         (\<exists>n cp. (GetTokenPrice (Swapper ex_position) (TokenAddress ex_position) n, Amount cp) \<in> set evs \<and>
                  stopLossPercent ex_monitor \<le> the (calculateDropPercent (BuyPriceWei ex_position) cp))) \<and>
      ((GetTokenBalance (Swapper ex_position) (TokenAddress ex_position), Failed) \<in> set evs \<longrightarrow> \<not> del) \<and>
      ((\<exists>b. (GetTokenBalance (Swapper ex_position) (TokenAddress ex_position), Amount b) \<in> set evs \<and> b \<le> 0)
         \<longrightarrow> \<not> del) \<and>
      ((\<exists>n. (GetTokenPrice (Swapper ex_position) (TokenAddress ex_position) n, Failed) \<in> set evs) \<longrightarrow> \<not> del))"
proof -
  have a: "distinct [ex_key]" and b: "ex_key \<in> set [ex_key]" by simp_all
  have c: "positions ex_monitor ex_key = Some ex_position" by (simp add: ex_monitor_def)
  have d: "checkPositions ex_reached (ex_chain 300000000000000 75 True) [ex_key] ([], ex_monitor) =
     (fst (checkPositions ex_reached (ex_chain 300000000000000 75 True) [ex_key] ([], ex_monitor)),
      snd (checkPositions ex_reached (ex_chain 300000000000000 75 True) [ex_key] ([], ex_monitor)))"
    by simp
  from position_removed_iff_stop_loss [OF a b c d] a b c show ?thesis by blast
qed

text \<open>
  Claim C1 as stated fails: on this tick the sale fails and the position is removed.
\<close>

theorem failed_sale_removes_position:
  "positions ex_monitor ex_key = Some ex_position \<and>
   fst (checkPositions ex_reached (ex_chain 100000000000000 75 False) [ex_key] ([], ex_monitor)) =
     [(GetTokenBalance 0 ex_token, Amount 1000),
      (GetTokenPriceInUSDT 0 ex_token 1000, Amount 100000000000000),
      (GetTokenPrice 0 ex_token 1000, Amount 75),
      (ApproveToken 0 ex_token maxApprove, TxHash ''0xa1''),
      (SellToken 0 ex_token 1000, Failed)] \<and>
   positions (snd (checkPositions ex_reached (ex_chain 100000000000000 75 False) [ex_key] ([], ex_monitor)))
     ex_key = None"
  by (simp add: checkPositions_def ex_monitor_def ex_tick_failed_sell)

lemma sellAmount_min:
  "sellAmount (pos\<lparr>TokenAmount := b\<rparr>) = min (InitialTokenAmount pos * 70 div 100) b"
  by (simp add: sellAmount_def TakeProfitSellPercent_def Let_def min_def)

lemma executeSell_sells:
  assumes "executeSell ch h pos n = (evs, pos')"
  shows "sell_amounts evs = (if Approved pos \<or> (\<exists>e\<in>set evs. approve_ok e) then [n] else [])"
  using executeSell_cases [OF assms] by auto

lemma checkTakeProfit_fired:
  assumes "checkTakeProfit reached ch h pos = (evs, pos')"
    and "ev \<in> set evs" and "take_profit_fired reached ev"
  shows "TakeProfitDone pos' \<and>
         sell_amounts evs =
           (if 0 < sellAmount pos \<and> (Approved pos \<or> (\<exists>e\<in>set evs. approve_ok e))
            then [sellAmount pos] else [])"
proof -
  let ?c = "GetTokenPriceInUSDT (Swapper pos) (TokenAddress pos) (oneToken pos)"
  from checkTakeProfit_cases [OF assms(1)]
  consider (none) r where "evs = [(?c, r)]" "\<forall>u. r = Amount u \<longrightarrow> \<not> reached u"
    | (zero) u where "evs = [(?c, Amount u)]" "pos' = pos\<lparr>TakeProfitDone := True\<rparr>"
        "sellAmount pos \<le> 0"
    | (sell) u h2 e2 p2 where "evs = (?c, Amount u) # e2" "pos' = p2\<lparr>TakeProfitDone := True\<rparr>"
        "0 < sellAmount pos" "executeSell ch h2 pos (sellAmount pos) = (e2, p2)"
    by auto
  then show ?thesis
  proof cases
    case none
    with assms(2,3) show ?thesis by (cases r) auto
  next
    case zero
    then show ?thesis by simp
  next
    case sell
    from executeSell_sells [OF sell(4)] sell(1,2,3) show ?thesis by simp
  qed
qed

lemma checkPosition_fired:
  assumes "checkPosition reached ch slp h pos = (evs, pos', del)"
    and "ev \<in> set evs" and "take_profit_fired reached ev"
  shows "TakeProfitDone pos' \<and>
    (\<exists>b e2 r e4.
       evs = (GetTokenBalance (Swapper pos) (TokenAddress pos), Amount b) # e2 @
             (GetTokenPrice (Swapper pos) (TokenAddress pos) b, r) # e4 \<and>
       kind_of ` set e2 \<subseteq> {Quote, Approve, Sell} \<and> kind_of ` set e4 \<subseteq> {Approve, Sell} \<and>
       sell_amounts e2 =
         (if 0 < min (InitialTokenAmount pos * 70 div 100) b \<and>
             (Approved pos \<or> (\<exists>e\<in>set e2. approve_ok e))
          then [min (InitialTokenAmount pos * 70 div 100) b] else []) \<and>
       (del \<longleftrightarrow> (\<exists>cp. r = Amount cp \<and> slp \<le> the (calculateDropPercent (BuyPriceWei pos) cp))))"
proof -
  let ?c = "GetTokenBalance (Swapper pos) (TokenAddress pos)"
  obtain c0 r0 where ev: "ev = (c0, r0)" by (cases ev) auto
  have q: "kind_of ev = Quote"
    using assms(3) unfolding ev by (cases c0; cases r0) simp_all
  from checkPosition_cases [OF assms(1)]
  consider (skip) "evs = [] \<or> (\<exists>r. evs = [(?c, r)])"
    | (eval) b e2 pos2 e3 where "0 < b"
        "takeProfitStep reached ch (h @ [(?c, Amount b)]) (pos\<lparr>TokenAmount := b\<rparr>) = (e2, pos2)"
        "stopLossStep ch slp (h @ (?c, Amount b) # e2) pos2 = (e3, pos', del)"
        "evs = (?c, Amount b) # e2 @ e3"
    by auto
  then show ?thesis
  proof cases
    case skip
    with assms(2) q show ?thesis by auto
  next
    case eval
    let ?p1 = "pos\<lparr>TokenAmount := b\<rparr>"
    note k2 = takeProfitStep_kept [OF eval(2)]
    from k2 have f2: "Swapper pos2 = Swapper pos" "TokenAddress pos2 = TokenAddress pos"
      "BuyPriceWei pos2 = BuyPriceWei pos" "TokenAmount pos2 = b"
      by (simp_all add: kept_def)
    from stopLossStep_trace [OF eval(3)] obtain r e4 where
      e3: "e3 = (GetTokenPrice (Swapper pos) (TokenAddress pos) b, r) # e4"
      and k4: "kind_of ` set e4 \<subseteq> {Approve, Sell}"
      and d: "del \<longleftrightarrow> (\<exists>cp. r = Amount cp \<and> slp \<le> the (calculateDropPercent (BuyPriceWei pos) cp))"
      unfolding f2 by blast
    have "ev \<notin> set e4" by (rule no_kind [OF k4]) (simp add: q)
    with assms(2) eval(4) e3 q have in2: "ev \<in> set e2" by auto
    then have run: "checkTakeProfit reached ch (h @ [(?c, Amount b)]) ?p1 = (e2, pos2)"
      using eval(2) by (auto simp: takeProfitStep_def split: if_splits)
    from checkTakeProfit_fired [OF run in2 assms(3)]
    have done2: "TakeProfitDone pos2"
      and s2: "sell_amounts e2 =
           (if 0 < sellAmount ?p1 \<and> (Approved pos \<or> (\<exists>e\<in>set e2. approve_ok e))
            then [sellAmount ?p1] else [])"
      by simp_all
    from done2 stopLossStep_kept(1) [OF eval(3)] have done': "TakeProfitDone pos'"
      by (simp add: kept_def)
    show ?thesis
      by (intro conjI exI)
        (rule done', rule eval(4) [unfolded e3], rule takeProfitStep_trace(1) [OF eval(2)],
         rule k4, rule s2 [unfolded sellAmount_min], rule d)
  qed
qed

section \<open>The take-profit sale\<close>

text \<open>
  Claim C6, as amended. On a tick on which take-profit fires for a live position, the
  take-profit part of the tick requests one sale, of exactly the lower of 70% of the
  initial amount (integer division by 100) and the balance read on that tick, provided
  that amount is positive and the position is approved or its approval goes through; the
  flag is set; and the position stays in the live set unless the price read on the same
  tick reaches the stop-loss threshold.
\<close>

theorem take_profit_sells_seventy_percent:
  assumes "distinct ks" and "key \<in> set ks" and "positions m key = Some pos"
    and "checkPositions reached ch ks (h, m) = (h', m')"
  shows "\<exists>before evs after pos' del.
           checkPosition reached ch (stopLossPercent m) (h @ before) pos = (evs, pos', del) \<and>
           h' = h @ before @ evs @ after \<and>
           positions m' key = (if del then None else Some pos') \<and>
           ((\<exists>ev\<in>set evs. take_profit_fired reached ev) \<longrightarrow>
              TakeProfitDone pos' \<and>
              (\<exists>b e2 r e4.
                 evs = (GetTokenBalance (Swapper pos) (TokenAddress pos), Amount b) # e2 @
                       (GetTokenPrice (Swapper pos) (TokenAddress pos) b, r) # e4 \<and>
                 kind_of ` set e2 \<subseteq> {Quote, Approve, Sell} \<and>
                 kind_of ` set e4 \<subseteq> {Approve, Sell} \<and>
                 sell_amounts e2 =
                   (if 0 < min (InitialTokenAmount pos * 70 div 100) b \<and>
                       (Approved pos \<or> (\<exists>e\<in>set e2. approve_ok e))
                    then [min (InitialTokenAmount pos * 70 div 100) b] else []) \<and>
                 (del \<longleftrightarrow> (\<exists>cp. r = Amount cp \<and>
                    stopLossPercent m \<le> the (calculateDropPercent (BuyPriceWei pos) cp)))))"
proof -
  from assms(4) have "checkPositions_loop reached ch ks (h, m) = (h', m')"
    by (simp add: checkPositions_def)
  from checkPositions_loop_visit [OF assms(1,2,3) this]
  obtain before evs after pos' del where
    run: "checkPosition reached ch (stopLossPercent m) (h @ before) pos = (evs, pos', del)"
    and rest: "h' = h @ before @ evs @ after" "positions m' key = (if del then None else Some pos')"
    by blast
  have fired: "(\<exists>ev\<in>set evs. take_profit_fired reached ev) \<longrightarrow>
      TakeProfitDone pos' \<and>
      (\<exists>b e2 r e4.
         evs = (GetTokenBalance (Swapper pos) (TokenAddress pos), Amount b) # e2 @
               (GetTokenPrice (Swapper pos) (TokenAddress pos) b, r) # e4 \<and>
         kind_of ` set e2 \<subseteq> {Quote, Approve, Sell} \<and>
         kind_of ` set e4 \<subseteq> {Approve, Sell} \<and>
         sell_amounts e2 =
           (if 0 < min (InitialTokenAmount pos * 70 div 100) b \<and>
               (Approved pos \<or> (\<exists>e\<in>set e2. approve_ok e))
            then [min (InitialTokenAmount pos * 70 div 100) b] else []) \<and>
         (del \<longleftrightarrow> (\<exists>cp. r = Amount cp \<and>
            stopLossPercent m \<le> the (calculateDropPercent (BuyPriceWei pos) cp))))"
  proof
    assume "\<exists>ev\<in>set evs. take_profit_fired reached ev"
    then obtain ev where "ev \<in> set evs" "take_profit_fired reached ev" by blast
    from checkPosition_fired [OF run this] show "TakeProfitDone pos' \<and>
      (\<exists>b e2 r e4.
         evs = (GetTokenBalance (Swapper pos) (TokenAddress pos), Amount b) # e2 @
               (GetTokenPrice (Swapper pos) (TokenAddress pos) b, r) # e4 \<and>
         kind_of ` set e2 \<subseteq> {Quote, Approve, Sell} \<and>
         kind_of ` set e4 \<subseteq> {Approve, Sell} \<and>
         sell_amounts e2 =
           (if 0 < min (InitialTokenAmount pos * 70 div 100) b \<and>
               (Approved pos \<or> (\<exists>e\<in>set e2. approve_ok e))
            then [min (InitialTokenAmount pos * 70 div 100) b] else []) \<and>
         (del \<longleftrightarrow> (\<exists>cp. r = Amount cp \<and>
            stopLossPercent m \<le> the (calculateDropPercent (BuyPriceWei pos) cp))))" .
  qed
  show ?thesis
    by (intro exI conjI) (rule run, rule rest(1), rule rest(2), rule fired)
qed


theorem take_profit_sells_seventy_percent_witness:
  "distinct [ex_key] \<and> ex_key \<in> set [ex_key] \<and> positions ex_monitor ex_key = Some ex_position \<and>
   (\<exists>ev\<in>set (fst (checkPositions ex_reached (ex_chain 300000000000000 100 True) [ex_key] ([], ex_monitor))).
      take_profit_fired ex_reached ev) \<and>
   (\<exists>before evs after pos' del.
      checkPosition ex_reached (ex_chain 300000000000000 100 True) (stopLossPercent ex_monitor)
        ([] @ before) ex_position = (evs, pos', del) \<and>
      fst (checkPositions ex_reached (ex_chain 300000000000000 100 True) [ex_key] ([], ex_monitor)) =
        [] @ before @ evs @ after \<and>
      positions (snd (checkPositions ex_reached (ex_chain 300000000000000 100 True) [ex_key] ([], ex_monitor)))
        ex_key = (if del then None else Some pos') \<and>
      ((\<exists>ev\<in>set evs. take_profit_fired ex_reached ev) \<longrightarrow>
         TakeProfitDone pos' \<and>
         (\<exists>b e2 r e4.
            evs = (GetTokenBalance (Swapper ex_position) (TokenAddress ex_position), Amount b) # e2 @
                  (GetTokenPrice (Swapper ex_position) (TokenAddress ex_position) b, r) # e4 \<and>
            kind_of ` set e2 \<subseteq> {Quote, Approve, Sell} \<and>
            kind_of ` set e4 \<subseteq> {Approve, Sell} \<and>
            sell_amounts e2 =
              (if 0 < min (InitialTokenAmount ex_position * 70 div 100) b \<and>
                  (Approved ex_position \<or> (\<exists>e\<in>set e2. approve_ok e))
               then [min (InitialTokenAmount ex_position * 70 div 100) b] else []) \<and>
            (del \<longleftrightarrow> (\<exists>cp. r = Amount cp \<and>
               stopLossPercent ex_monitor \<le> the (calculateDropPercent (BuyPriceWei ex_position) cp))))))"
proof -
  have a: "distinct [ex_key]" and b: "ex_key \<in> set [ex_key]" by simp_all
  have c: "positions ex_monitor ex_key = Some ex_position" by (simp add: ex_monitor_def)
  have d: "checkPositions ex_reached (ex_chain 300000000000000 100 True) [ex_key] ([], ex_monitor) =
     (fst (checkPositions ex_reached (ex_chain 300000000000000 100 True) [ex_key] ([], ex_monitor)),
      snd (checkPositions ex_reached (ex_chain 300000000000000 100 True) [ex_key] ([], ex_monitor)))"
    by simp
  have e: "\<exists>ev\<in>set (fst (checkPositions ex_reached (ex_chain 300000000000000 100 True) [ex_key] ([], ex_monitor))).
      take_profit_fired ex_reached ev"
    by (simp add: checkPositions_def ex_monitor_def ex_tick_take_profit ex_reached_def)
  from take_profit_sells_seventy_percent [OF a b c d] a b c e show ?thesis by (intro conjI)
qed

text \<open>
  Claim C6 as stated fails in its last part: on this tick take-profit fires, 700 of the
  1000 tokens are sold, and the position is not in the live set afterwards, because the
  stop-loss rule fires on the same tick.
\<close>

theorem take_profit_then_removed:
  "positions ex_monitor ex_key = Some ex_position \<and>
   ex_reached 300000000000000 \<and>
   fst (checkPositions ex_reached (ex_chain 300000000000000 75 True) [ex_key] ([], ex_monitor)) =
     [(GetTokenBalance 0 ex_token, Amount 1000),
      (GetTokenPriceInUSDT 0 ex_token 1000, Amount 300000000000000),
      (ApproveToken 0 ex_token maxApprove, TxHash ''0xa1''),
      (SellToken 0 ex_token 700, TxHash ''0x5e''),
      (GetTokenPrice 0 ex_token 1000, Amount 75),
      (SellToken 0 ex_token 1000, TxHash ''0x5e'')] \<and>
   positions (snd (checkPositions ex_reached (ex_chain 300000000000000 75 True) [ex_key] ([], ex_monitor)))
     ex_key = None"
  by (simp add: checkPositions_def ex_monitor_def ex_tick_both_rules ex_reached_def)

section \<open>Amounts sold\<close>

text \<open>
  Claim C5. Every amount the loop body passes to \<^verbatim>\<open>SellToken\<close> for a position on a tick
  is at most the position's tracked balance, which is the balance read on that tick.
\<close>

theorem sell_amount_within_balance:
  assumes "checkPosition reached ch slp h pos = (evs, pos', del)"
    and "x \<in> set (sell_amounts evs)"
  shows "x \<le> TokenAmount pos' \<and>
         (GetTokenBalance (Swapper pos) (TokenAddress pos), Amount (TokenAmount pos')) \<in> set evs"
proof -
  from checkPosition_trace [OF assms(1)] assms(2)
  obtain b e2 r e4 where
    evs: "evs = (GetTokenBalance (Swapper pos) (TokenAddress pos), Amount b) # e2 @
                (GetTokenPrice (Swapper pos) (TokenAddress pos) b, r) # e4"
    and b: "TokenAmount pos' = b"
    and s2: "set (sell_amounts e2) \<subseteq> {sellAmount (pos\<lparr>TokenAmount := b\<rparr>)}"
    and s4: "set (sell_amounts e4) \<subseteq> {b}"
    by auto
  from assms(2) have "x \<in> set (sell_amounts e2) \<or> x \<in> set (sell_amounts e4)"
    unfolding evs by (simp add: sell_amounts_append)
  with s2 s4 have "x = sellAmount (pos\<lparr>TokenAmount := b\<rparr>) \<or> x = b" by auto
  moreover have "sellAmount (pos\<lparr>TokenAmount := b\<rparr>) \<le> b"
    using sellAmount_le [of "pos\<lparr>TokenAmount := b\<rparr>"] by simp
  ultimately have "x \<le> b" by auto
  with b evs show ?thesis by simp
qed

theorem sell_amount_within_balance_witness:
  "checkPosition ex_reached (ex_chain 300000000000000 75 True) 20 [] ex_position =
     ([(GetTokenBalance 0 ex_token, Amount 1000),
       (GetTokenPriceInUSDT 0 ex_token 1000, Amount 300000000000000),
       (ApproveToken 0 ex_token maxApprove, TxHash ''0xa1''),
       (SellToken 0 ex_token 700, TxHash ''0x5e''),
       (GetTokenPrice 0 ex_token 1000, Amount 75),
       (SellToken 0 ex_token 1000, TxHash ''0x5e'')],
      ex_position\<lparr>Approved := True, TakeProfitDone := True\<rparr>, True) \<and>
   700 \<in> set (sell_amounts
       [(GetTokenBalance 0 ex_token, Amount 1000),
        (GetTokenPriceInUSDT 0 ex_token 1000, Amount 300000000000000),
        (ApproveToken 0 ex_token maxApprove, TxHash ''0xa1''),
        (SellToken 0 ex_token 700, TxHash ''0x5e''),
        (GetTokenPrice 0 ex_token 1000, Amount 75),
        (SellToken 0 ex_token 1000, TxHash ''0x5e'')]) \<and>
   700 \<le> TokenAmount (ex_position\<lparr>Approved := True, TakeProfitDone := True\<rparr>)"
proof -
  have m: "700 \<in> set (sell_amounts
       [(GetTokenBalance 0 ex_token, Amount 1000),
        (GetTokenPriceInUSDT 0 ex_token 1000, Amount 300000000000000),
        (ApproveToken 0 ex_token maxApprove, TxHash ''0xa1''),
        (SellToken 0 ex_token 700, TxHash ''0x5e''),
        (GetTokenPrice 0 ex_token 1000, Amount 75),
        (SellToken 0 ex_token 1000, TxHash ''0x5e'')])"
    by simp
  from sell_amount_within_balance [OF ex_tick_both_rules m] ex_tick_both_rules m
  show ?thesis by (intro conjI) simp_all
qed

section \<open>Runs of the monitor and lives of positions\<close>

lemma evaluations_shift:
  "\<exists>others'. evaluations reached ch slp others' h pos = evaluations reached ch slp others (h @ e) pos"
proof (cases others)
  case Nil
  have "evaluations reached ch slp [] h pos = evaluations reached ch slp [] (h @ e) pos" by simp
  with Nil show ?thesis by blast
next
  case (Cons other rest)
  have "evaluations reached ch slp ((e @ other) # rest) h pos =
        evaluations reached ch slp (other # rest) (h @ e) pos"
    by (simp cong: if_cong)
  with Cons show ?thesis by blast
qed

lemma AddPosition_other:
  assumes "positionKey hex w a \<noteq> key" and "AddPosition hex ch w s a n (h, m) = (h1, m1)"
  shows "positions m1 key = positions m key" and "stopLossPercent m1 = stopLossPercent m"
    and "\<exists>e. h1 = h @ e"
  using assms by (auto simp: AddPosition_def Let_def split: option.splits if_splits)

lemma checkPositions_loop_threshold:
  "checkPositions_loop reached ch ks (h, m) = (h', m') \<Longrightarrow> stopLossPercent m' = stopLossPercent m"
proof (induction ks arbitrary: h m)
  case Nil
  then show ?case by simp
next
  case (Cons k ks)
  show ?case
  proof (cases "positions m k")
    case None
    with Cons show ?thesis by simp
  next
    case (Some p)
    obtain evs p' del where step: "checkPosition reached ch (stopLossPercent m) h p = (evs, p', del)"
      by (cases "checkPosition reached ch (stopLossPercent m) h p") auto
    let ?m1 = "m\<lparr>positions := (if del then (positions m)(k := None) else (positions m)(k \<mapsto> p'))\<rparr>"
    from Cons.prems Some step have run: "checkPositions_loop reached ch ks (h @ evs, ?m1) = (h', m')"
      by (cases del) simp_all
    from Cons.IH [OF run] show ?thesis by simp
  qed
qed

lemma checkPositions_loop_absent:
  "positions m key = None \<Longrightarrow> checkPositions_loop reached ch ks (h, m) = (h', m') \<Longrightarrow>
     positions m' key = None"
proof (induction ks arbitrary: h m)
  case Nil
  then show ?case by simp
next
  case (Cons k ks)
  show ?case
  proof (cases "positions m k")
    case None
    with Cons show ?thesis by simp
  next
    case (Some p)
    with Cons.prems(1) have ne: "k \<noteq> key" by auto
    obtain evs p' del where step: "checkPosition reached ch (stopLossPercent m) h p = (evs, p', del)"
      by (cases "checkPosition reached ch (stopLossPercent m) h p") auto
    let ?m1 = "m\<lparr>positions := (if del then (positions m)(k := None) else (positions m)(k \<mapsto> p'))\<rparr>"
    from Cons.prems Some step have run: "checkPositions_loop reached ch ks (h @ evs, ?m1) = (h', m')"
      by (cases del) simp_all
    from ne Cons.prems(1) have "positions ?m1 key = None" by simp
    from Cons.IH [OF this run] show ?thesis .
  qed
qed

lemma run_ops_absent:
  "\<forall>x\<in>set ops. case x of Register w s a n \<Rightarrow> positionKey hex w a \<noteq> key | Tick ks \<Rightarrow> distinct ks \<Longrightarrow>
   positions m key = None \<Longrightarrow> run_ops reached hex ch ops (h, m) = (h', m') \<Longrightarrow>
     positions m' key = None"
proof (induction ops arbitrary: h m)
  case Nil
  then show ?case by simp
next
  case (Cons x xs)
  obtain h1 m1 where step: "apply_op reached hex ch x (h, m) = (h1, m1)"
    by (cases "apply_op reached hex ch x (h, m)") auto
  from Cons.prems(3) step have rest: "run_ops reached hex ch xs (h1, m1) = (h', m')" by simp
  from Cons.prems(1) have side: "\<forall>x\<in>set xs. case x of Register w s a n \<Rightarrow> positionKey hex w a \<noteq> key
      | Tick ks \<Rightarrow> distinct ks"
    by simp
  have "positions m1 key = None"
  proof (cases x)
    case (Register w s a n)
    with Cons.prems(1) have "positionKey hex w a \<noteq> key" by simp
    from AddPosition_other(1) [OF this] step Register Cons.prems(2) show ?thesis by simp
  next
    case (Tick ks)
    with step have "checkPositions_loop reached ch ks (h, m) = (h1, m1)"
      by (simp add: checkPositions_def)
    from checkPositions_loop_absent [OF Cons.prems(2) this] show ?thesis .
  qed
  from Cons.IH [OF side this rest] show ?case .
qed

text \<open>
  A run of the monitor and the life of one of its positions. While no registration
  writes the key again, the position stored under a key after any run of registrations
  and ticks is the one \<open>evaluations\<close> computes, and it is gone exactly when an evaluation
  deleted it.
\<close>

lemma run_ops_evaluations:
  "\<forall>x\<in>set ops. case x of Register w s a n \<Rightarrow> positionKey hex w a \<noteq> key | Tick ks \<Rightarrow> distinct ks \<Longrightarrow>
   positions m key = Some pos \<Longrightarrow> run_ops reached hex ch ops (h, m) = (h', m') \<Longrightarrow>
     \<exists>others evs pos' del.
        evaluations reached ch (stopLossPercent m) others h pos = (evs, pos', del) \<and>
        positions m' key = (if del then None else Some pos')"
proof (induction ops arbitrary: h m pos)
  case Nil
  then have "evaluations reached ch (stopLossPercent m) [] h pos = ([], pos, False) \<and>
      positions m' key = (if False then None else Some pos)"
    by simp
  then show ?case by blast
next
  case (Cons x xs)
  let ?slp = "stopLossPercent m"
  obtain h1 m1 where step: "apply_op reached hex ch x (h, m) = (h1, m1)"
    by (cases "apply_op reached hex ch x (h, m)") auto
  from Cons.prems(3) step have rest: "run_ops reached hex ch xs (h1, m1) = (h', m')" by simp
  from Cons.prems(1) have side: "\<forall>x\<in>set xs. case x of Register w s a n \<Rightarrow> positionKey hex w a \<noteq> key
      | Tick ks \<Rightarrow> distinct ks"
    by simp
  have untouched: ?case
    if same: "positions m1 key = Some pos" and slp: "stopLossPercent m1 = ?slp"
      and ext: "h1 = h @ e" for e
  proof -
    from Cons.IH [OF side same rest] slp obtain others evs pos' del where
      ev: "evaluations reached ch ?slp others h1 pos = (evs, pos', del)"
      and fin: "positions m' key = (if del then None else Some pos')"
      by auto
    from evaluations_shift [of reached ch ?slp h pos others e] ext ev
    obtain others' where "evaluations reached ch ?slp others' h pos = (evs, pos', del)"
      by auto
    with fin show ?thesis by blast
  qed
  show ?case
  proof (cases x)
    case (Register w s a n)
    with Cons.prems(1) have ne: "positionKey hex w a \<noteq> key" by simp
    from step Register have add: "AddPosition hex ch w s a n (h, m) = (h1, m1)" by simp
    from AddPosition_other(3) [OF ne add] obtain e where ext: "h1 = h @ e" by blast
    from AddPosition_other(1) [OF ne add] Cons.prems(2) have "positions m1 key = Some pos" by simp
    then show ?thesis using AddPosition_other(2) [OF ne add] ext by (rule untouched)
  next
    case (Tick ks)
    with step have loop: "checkPositions_loop reached ch ks (h, m) = (h1, m1)"
      by (simp add: checkPositions_def)
    from Tick Cons.prems(1) have d: "distinct ks" by simp
    note slp = checkPositions_loop_threshold [OF loop]
    show ?thesis
    proof (cases "key \<in> set ks")
      case False
      from checkPositions_loop_history [OF loop] obtain e where ext: "h1 = h @ e" by blast
      from checkPositions_loop_other [OF False loop] Cons.prems(2)
      have "positions m1 key = Some pos" by simp
      then show ?thesis using slp ext by (rule untouched)
    next
      case True
      from checkPositions_loop_visit [OF d True Cons.prems(2) loop]
      obtain before own after pos1 del1 where
        run: "checkPosition reached ch ?slp (h @ before) pos = (own, pos1, del1)"
        and h1: "h1 = h @ before @ own @ after"
        and now: "positions m1 key = (if del1 then None else Some pos1)"
        by blast
      show ?thesis
      proof (cases del1)
        case True
        with now have "positions m1 key = None" by simp
        from run_ops_absent [OF side this rest] have "positions m' key = None" .
        moreover from run True have "evaluations reached ch ?slp [before] h pos = (own, pos1, True)"
          by simp
        ultimately have "evaluations reached ch ?slp [before] h pos = (own, pos1, True) \<and>
            positions m' key = (if True then None else Some pos1)"
          by simp
        then show ?thesis by blast
      next
        case False
        with now have same: "positions m1 key = Some pos1" by simp
        from Cons.IH [OF side same rest] slp obtain others evs pos' del where
          ev: "evaluations reached ch ?slp others h1 pos1 = (evs, pos', del)"
          and fin: "positions m' key = (if del then None else Some pos')"
          by auto
        from evaluations_shift [of reached ch ?slp "h @ before @ own" pos1 others after] h1 ev
        obtain others' where
          "evaluations reached ch ?slp others' (h @ before @ own) pos1 = (evs, pos', del)"
          by auto
        with run False have
          "evaluations reached ch ?slp (before # others') h pos = (own @ evs, pos', del)"
          by simp
        with fin show ?thesis by blast
      qed
    qed
  qed
qed

section \<open>The flags over the life of a position\<close>

lemma ex_tick_after_take_profit:
  "checkPosition ex_reached (ex_chain 300000000000000 100 True) 20 h
      (ex_position\<lparr>Approved := True, TakeProfitDone := True\<rparr>) =
     ([(GetTokenBalance 0 ex_token, Amount 1000),
       (GetTokenPrice 0 ex_token 1000, Amount 100)],
      ex_position\<lparr>Approved := True, TakeProfitDone := True\<rparr>, False)"
  by (simp add: ex_defs)

lemma ex_tick_take_profit_any:
  "checkPosition ex_reached (ex_chain 300000000000000 100 True) 20 h ex_position =
     ([(GetTokenBalance 0 ex_token, Amount 1000),
       (GetTokenPriceInUSDT 0 ex_token 1000, Amount 300000000000000),
       (ApproveToken 0 ex_token maxApprove, TxHash ''0xa1''),
       (SellToken 0 ex_token 700, TxHash ''0x5e''),
       (GetTokenPrice 0 ex_token 1000, Amount 100)],
      ex_position\<lparr>Approved := True, TakeProfitDone := True\<rparr>, False)"
  by (simp add: ex_defs)

lemma ex_life:
  "evaluations ex_reached (ex_chain 300000000000000 100 True) 20 [[], []] [] ex_position =
     ([(GetTokenBalance 0 ex_token, Amount 1000),
       (GetTokenPriceInUSDT 0 ex_token 1000, Amount 300000000000000),
       (ApproveToken 0 ex_token maxApprove, TxHash ''0xa1''),
       (SellToken 0 ex_token 700, TxHash ''0x5e''),
       (GetTokenPrice 0 ex_token 1000, Amount 100),
       (GetTokenBalance 0 ex_token, Amount 1000),
       (GetTokenPrice 0 ex_token 1000, Amount 100)],
      ex_position\<lparr>Approved := True, TakeProfitDone := True\<rparr>, False)"
  by (simp add: ex_tick_take_profit_any ex_tick_after_take_profit)

lemma ex_life_later:
  "evaluations ex_reached (ex_chain 300000000000000 100 True) 20 [[], []] []
      (ex_position\<lparr>Approved := True, TakeProfitDone := True\<rparr>) =
     ([(GetTokenBalance 0 ex_token, Amount 1000),
       (GetTokenPrice 0 ex_token 1000, Amount 100),
       (GetTokenBalance 0 ex_token, Amount 1000),
       (GetTokenPrice 0 ex_token 1000, Amount 100)],
      ex_position\<lparr>Approved := True, TakeProfitDone := True\<rparr>, False)"
  by (simp add: ex_tick_after_take_profit)

lemma checkTakeProfit_sets_flag:
  assumes "query ch h (GetTokenPriceInUSDT (Swapper pos) (TokenAddress pos) (oneToken pos)) = Some u"
    and "reached u"
  shows "TakeProfitDone (snd (checkTakeProfit reached ch h pos))"
  using assms by (simp add: checkTakeProfit_def Let_def split: prod.splits)

text \<open>
  Claim C3. Over the life of a position take-profit fires at most once; once the flag is
  set it stays set and no take-profit quote is asked again; and the flag is set whenever
  the quote meets the threshold, whatever the amount to sell and whatever becomes of the
  sale.
\<close>

theorem take_profit_fires_at_most_once:
  assumes "evaluations reached ch slp others h pos = (evs, pos', del)"
  shows "length (filter (take_profit_fired reached) evs) \<le> 1 \<and>
         (TakeProfitDone pos \<longrightarrow> TakeProfitDone pos' \<and> Quote \<notin> kind_of ` set evs) \<and>
         ((\<exists>ev\<in>set evs. take_profit_fired reached ev) \<longrightarrow> TakeProfitDone pos') \<and>
         (\<forall>h0 p u. query ch h0 (GetTokenPriceInUSDT (Swapper p) (TokenAddress p) (oneToken p)) = Some u \<and>
                    reached u \<longrightarrow> TakeProfitDone (snd (checkTakeProfit reached ch h0 p)))"
proof -
  from evaluations_kept_accounted [OF assms]
  have k: "kept pos pos'" and a: "accounted reached pos evs pos'" by simp_all
  from a have count: "length (filter (take_profit_fired reached) evs) =
      (if \<not> TakeProfitDone pos \<and> TakeProfitDone pos' then 1 else 0)"
    and quiet: "TakeProfitDone pos \<longrightarrow> Quote \<notin> kind_of ` set evs"
    by (simp_all add: accounted_def)
  from count have one: "length (filter (take_profit_fired reached) evs) \<le> 1" by simp
  from k have mono: "TakeProfitDone pos \<longrightarrow> TakeProfitDone pos'" by (simp add: kept_def)
  have fired: "(\<exists>ev\<in>set evs. take_profit_fired reached ev) \<longrightarrow> TakeProfitDone pos'"
  proof
    assume "\<exists>ev\<in>set evs. take_profit_fired reached ev"
    then have "filter (take_profit_fired reached) evs \<noteq> []" by (simp add: filter_empty_conv)
    then have "0 < length (filter (take_profit_fired reached) evs)" by simp
    with count show "TakeProfitDone pos'" by (simp split: if_splits)
  qed
  from one mono quiet fired checkTakeProfit_sets_flag [of ch _ _ _ reached] show ?thesis
    by simp
qed

theorem take_profit_fires_at_most_once_witness:
  "evaluations ex_reached (ex_chain 300000000000000 100 True) 20 [[], []] [] ex_position =
     ([(GetTokenBalance 0 ex_token, Amount 1000),
       (GetTokenPriceInUSDT 0 ex_token 1000, Amount 300000000000000),
       (ApproveToken 0 ex_token maxApprove, TxHash ''0xa1''),
       (SellToken 0 ex_token 700, TxHash ''0x5e''),
       (GetTokenPrice 0 ex_token 1000, Amount 100),
       (GetTokenBalance 0 ex_token, Amount 1000),
       (GetTokenPrice 0 ex_token 1000, Amount 100)],
      ex_position\<lparr>Approved := True, TakeProfitDone := True\<rparr>, False) \<and>
   length (filter (take_profit_fired ex_reached)
     [(GetTokenBalance 0 ex_token, Amount 1000),
       (GetTokenPriceInUSDT 0 ex_token 1000, Amount 300000000000000),
       (ApproveToken 0 ex_token maxApprove, TxHash ''0xa1''),
       (SellToken 0 ex_token 700, TxHash ''0x5e''),
       (GetTokenPrice 0 ex_token 1000, Amount 100),
       (GetTokenBalance 0 ex_token, Amount 1000),
       (GetTokenPrice 0 ex_token 1000, Amount 100)]) = 1 \<and>
   TakeProfitDone (ex_position\<lparr>Approved := True, TakeProfitDone := True\<rparr>) \<and>
   query (ex_chain 300000000000000 100 True) []
     (GetTokenPriceInUSDT (Swapper ex_position) (TokenAddress ex_position) (oneToken ex_position)) =
     Some 300000000000000 \<and>
   ex_reached 300000000000000 \<and>
   TakeProfitDone (snd (checkTakeProfit ex_reached (ex_chain 300000000000000 100 True) [] ex_position))"
proof -
  have q: "query (ex_chain 300000000000000 100 True) []
     (GetTokenPriceInUSDT (Swapper ex_position) (TokenAddress ex_position) (oneToken ex_position)) =
     Some 300000000000000"
    by (simp add: ex_chain_def)
  have r: "ex_reached 300000000000000" by (simp add: ex_reached_def)
  from take_profit_fires_at_most_once [OF ex_life] q r have
    "TakeProfitDone (snd (checkTakeProfit ex_reached (ex_chain 300000000000000 100 True) [] ex_position))"
    by blast
  with ex_life q r show ?thesis by (simp add: ex_reached_def)
qed

text \<open>
  Claim C4. Over the life of a position at most one approval goes through; an approval
  is attempted only while the flag is unset; the flag is set only by an approval that
  went through; and once set it stays set, through take-profit and stop-loss sales alike.
\<close>

theorem approval_issued_at_most_once:
  assumes "evaluations reached ch slp others h pos = (evs, pos', del)"
  shows "length (filter approve_ok evs) \<le> 1 \<and>
         (Approved pos \<longrightarrow> Approved pos' \<and> Approve \<notin> kind_of ` set evs) \<and>
         (Approved pos' \<longrightarrow> Approved pos \<or> (\<exists>ev\<in>set evs. approve_ok ev)) \<and>
         ((\<exists>ev\<in>set evs. approve_ok ev) \<longrightarrow> Approved pos')"
proof -
  from evaluations_kept_accounted [OF assms]
  have k: "kept pos pos'" and a: "accounted reached pos evs pos'" by simp_all
  from a have count: "length (filter approve_ok evs) =
      (if \<not> Approved pos \<and> Approved pos' then 1 else 0)"
    and quiet: "Approved pos \<longrightarrow> Approve \<notin> kind_of ` set evs"
    by (simp_all add: accounted_def)
  from count have one: "length (filter approve_ok evs) \<le> 1" by simp
  from k have mono: "Approved pos \<longrightarrow> Approved pos'" by (simp add: kept_def)
  have some: "(\<exists>ev\<in>set evs. approve_ok ev) \<longleftrightarrow> 0 < length (filter approve_ok evs)"
    by (simp add: filter_empty_conv)
  have set: "Approved pos' \<longrightarrow> Approved pos \<or> (\<exists>ev\<in>set evs. approve_ok ev)"
    unfolding some count by simp
  have only: "(\<exists>ev\<in>set evs. approve_ok ev) \<longrightarrow> Approved pos'"
    unfolding some count by (simp split: if_splits)
  from one mono quiet set only show ?thesis by simp
qed

theorem approval_issued_at_most_once_witness:
  "evaluations ex_reached (ex_chain 300000000000000 100 True) 20 [[], []] []
      (ex_position\<lparr>Approved := True, TakeProfitDone := True\<rparr>) =
     ([(GetTokenBalance 0 ex_token, Amount 1000),
       (GetTokenPrice 0 ex_token 1000, Amount 100),
       (GetTokenBalance 0 ex_token, Amount 1000),
       (GetTokenPrice 0 ex_token 1000, Amount 100)],
      ex_position\<lparr>Approved := True, TakeProfitDone := True\<rparr>, False) \<and>
   Approved (ex_position\<lparr>Approved := True, TakeProfitDone := True\<rparr>) \<and>
   Approve \<notin> kind_of ` set
     [(GetTokenBalance 0 ex_token, Amount 1000),
       (GetTokenPrice 0 ex_token 1000, Amount 100),
       (GetTokenBalance 0 ex_token, Amount 1000),
       (GetTokenPrice 0 ex_token 1000, Amount 100)] \<and>
   evaluations ex_reached (ex_chain 300000000000000 100 True) 20 [[], []] [] ex_position =
     ([(GetTokenBalance 0 ex_token, Amount 1000),
       (GetTokenPriceInUSDT 0 ex_token 1000, Amount 300000000000000),
       (ApproveToken 0 ex_token maxApprove, TxHash ''0xa1''),
       (SellToken 0 ex_token 700, TxHash ''0x5e''),
       (GetTokenPrice 0 ex_token 1000, Amount 100),
       (GetTokenBalance 0 ex_token, Amount 1000),
       (GetTokenPrice 0 ex_token 1000, Amount 100)],
      ex_position\<lparr>Approved := True, TakeProfitDone := True\<rparr>, False) \<and>
   \<not> Approved ex_position \<and>
   length (filter approve_ok
     [(GetTokenBalance 0 ex_token, Amount 1000),
       (GetTokenPriceInUSDT 0 ex_token 1000, Amount 300000000000000),
       (ApproveToken 0 ex_token maxApprove, TxHash ''0xa1''),
       (SellToken 0 ex_token 700, TxHash ''0x5e''),
       (GetTokenPrice 0 ex_token 1000, Amount 100),
       (GetTokenBalance 0 ex_token, Amount 1000),
       (GetTokenPrice 0 ex_token 1000, Amount 100)]) \<le> 1"
proof -
  have a: "Approved (ex_position\<lparr>Approved := True, TakeProfitDone := True\<rparr>)" by simp
  have b: "\<not> Approved ex_position" by (simp add: ex_position_def)
  from approval_issued_at_most_once [OF ex_life_later] approval_issued_at_most_once [OF ex_life]
    a b ex_life_later ex_life
  show ?thesis by blast
qed

section \<open>Registration\<close>

lemma ex_register:
  "AddPosition ex_hex (ex_chain 300000000000000 100 True) 0 0 ex_token 5 ([], NewStopLossMonitor 20) =
     ([(GetTokenBalance 0 ex_token, Amount 1000), (GetTokenPrice 0 ex_token 1000, Amount 100)],
      ex_monitor)"
  by (simp add: AddPosition_def NewStopLossMonitor_def ex_monitor_def ex_position_def ex_key_def
      ex_chain_def amount_reply_def Let_def)

text \<open>
  Claim C8. A registration whose balance query fails, or returns a balance that is not
  positive, leaves the monitor as it was: no position is inserted and the number of
  positions is the same.
\<close>

theorem AddPosition_without_balance:
  assumes "query ch h (GetTokenBalance swapper tokenAddress) = None \<or>
           (\<exists>b. query ch h (GetTokenBalance swapper tokenAddress) = Some b \<and> b \<le> 0)"
  shows "snd (AddPosition hex ch walletIndex swapper tokenAddress buyAmountWei (h, m)) = m \<and>
         card (dom (positions (snd (AddPosition hex ch walletIndex swapper tokenAddress buyAmountWei (h, m))))) =
           card (dom (positions m))"
proof -
  from assms have "snd (AddPosition hex ch walletIndex swapper tokenAddress buyAmountWei (h, m)) = m"
    by (auto simp: AddPosition_def Let_def)
  then show ?thesis by simp
qed

theorem AddPosition_without_balance_witness:
  "query ex_offline_chain [] (GetTokenBalance 0 ex_token) = None \<and>
   snd (AddPosition ex_hex ex_offline_chain 0 0 ex_token 5 ([], ex_monitor)) = ex_monitor \<and>
   query ex_empty_chain [] (GetTokenBalance 0 ex_token) = Some 0 \<and> (0::int) \<le> 0 \<and>
   snd (AddPosition ex_hex ex_empty_chain 0 0 ex_token 5 ([], ex_monitor)) = ex_monitor"
proof -
  have a: "query ex_offline_chain [] (GetTokenBalance 0 ex_token) = None"
    by (simp add: ex_offline_chain_def)
  have b: "query ex_empty_chain [] (GetTokenBalance 0 ex_token) = Some 0"
    by (simp add: ex_empty_chain_def)
  from a have a': "query ex_offline_chain [] (GetTokenBalance 0 ex_token) = None \<or>
      (\<exists>b. query ex_offline_chain [] (GetTokenBalance 0 ex_token) = Some b \<and> b \<le> 0)"
    by simp
  from b have b': "query ex_empty_chain [] (GetTokenBalance 0 ex_token) = None \<or>
      (\<exists>b. query ex_empty_chain [] (GetTokenBalance 0 ex_token) = Some b \<and> b \<le> 0)"
    by simp
  from AddPosition_without_balance [OF a', of ex_hex 0 5 ex_monitor]
    AddPosition_without_balance [OF b', of ex_hex 0 5 ex_monitor] a b
  show ?thesis by simp
qed

section \<open>The sold flag\<close>

text \<open>
  Claim C10. In every state the monitor reaches from its creation by registrations and
  ticks, every position of the live set has \<open>Sold = False\<close>, so the loop body never takes
  its skip branch on it: it always asks for the balance.
\<close>

theorem sold_flag_never_set:
  assumes "run_ops reached hex ch ops (h, NewStopLossMonitor slp) = (h', m')"
    and "positions m' key = Some pos"
  shows "\<not> Sold pos \<and>
         (\<forall>h0. \<exists>r evs. fst (checkPosition reached ch (stopLossPercent m') h0 pos) =
            (GetTokenBalance (Swapper pos) (TokenAddress pos), r) # evs)"
proof -
  have "unsold (NewStopLossMonitor slp)"
    by (simp add: unsold_def NewStopLossMonitor_def)
  from unsold_run_ops [OF this assms(1)] assms(2) have ns: "\<not> Sold pos"
    by (simp add: unsold_def)
  have "\<exists>r evs. fst (checkPosition reached ch (stopLossPercent m') h0 pos) =
            (GetTokenBalance (Swapper pos) (TokenAddress pos), r) # evs" for h0
    using ns by (simp add: checkPosition_def Let_def split: option.splits prod.splits)
  with ns show ?thesis by simp
qed

theorem sold_flag_never_set_witness:
  "run_ops ex_reached ex_hex (ex_chain 300000000000000 100 True) [Register 0 0 ex_token 5]
       ([], NewStopLossMonitor 20) =
     ([(GetTokenBalance 0 ex_token, Amount 1000), (GetTokenPrice 0 ex_token 1000, Amount 100)],
      ex_monitor) \<and>
   positions ex_monitor ex_key = Some ex_position \<and>
   \<not> Sold ex_position"
proof -
  have a: "run_ops ex_reached ex_hex (ex_chain 300000000000000 100 True) [Register 0 0 ex_token 5]
       ([], NewStopLossMonitor 20) =
     ([(GetTokenBalance 0 ex_token, Amount 1000), (GetTokenPrice 0 ex_token 1000, Amount 100)],
      ex_monitor)"
    by (simp add: ex_register)
  have b: "positions ex_monitor ex_key = Some ex_position" by (simp add: ex_monitor_def)
  from sold_flag_never_set [OF a b] a b show ?thesis by simp
qed

section \<open>Position keys\<close>

text \<open>
  Claim C9 fails on the code: wallet indices 55296 and 55297 are surrogate code points,
  both are encoded as the replacement character, and the two keys are equal.
\<close>

theorem positionKey_collision:
  "positionKey hex 55296 a = positionKey hex 55297 a"
  by (simp add: positionKey_def rune_def string_of_rune_def)

section \<open>Reconnecting\<close>

lemma reconnect_loop_length:
  "length (snd (reconnect_loop dial a)) \<le> maxReconnectAttempts + 1 - a"
proof (induction dial a rule: reconnect_loop.induct)
  case (1 dial attempt)
  show ?case
  proof (cases "attempt \<le> maxReconnectAttempts")
    case False
    then show ?thesis by (simp add: reconnect_loop.simps [of dial attempt])
  next
    case True
    show ?thesis
    proof (cases "dial attempt")
      case Connected
      with True show ?thesis by (simp add: reconnect_loop.simps [of dial attempt])
    next
      case DialFailed
      with True "1.IH"(1) [OF True DialFailed] show ?thesis
        by (simp add: reconnect_loop.simps [of dial attempt] case_prod_beta)
    next
      case ProbeFailed
      with True "1.IH"(2) [OF True ProbeFailed] show ?thesis
        by (simp add: reconnect_loop.simps [of dial attempt] case_prod_beta)
    qed
  qed
qed

lemma reconnect_loop_all_fail:
  "\<forall>n. a \<le> n \<and> n \<le> maxReconnectAttempts \<longrightarrow> dial n \<noteq> Connected \<Longrightarrow>
     reconnect_loop dial a =
       (Some ''failed to reconnect after 10 attempts'', [a..<Suc maxReconnectAttempts])"
proof (induction dial a rule: reconnect_loop.induct)
  case (1 dial attempt)
  show ?case
  proof (cases "attempt \<le> maxReconnectAttempts")
    case False
    then show ?thesis by (simp add: reconnect_loop.simps [of dial attempt])
  next
    case True
    have later: "\<forall>n. attempt + 1 \<le> n \<and> n \<le> maxReconnectAttempts \<longrightarrow> dial n \<noteq> Connected"
      using "1.prems" by simp
    have here: "dial attempt \<noteq> Connected" using "1.prems" True by simp
    have up: "[attempt..<Suc maxReconnectAttempts] = attempt # [attempt + 1..<Suc maxReconnectAttempts]"
      using True by (simp add: upt_conv_Cons)
    show ?thesis
    proof (cases "dial attempt")
      case Connected
      with here show ?thesis by simp
    next
      case DialFailed
      with True "1.IH"(1) [OF True DialFailed later] up show ?thesis
        by (simp add: reconnect_loop.simps [of dial attempt] case_prod_beta)
    next
      case ProbeFailed
      with True "1.IH"(2) [OF True ProbeFailed later] up show ?thesis
        by (simp add: reconnect_loop.simps [of dial attempt] case_prod_beta)
    qed
  qed
qed

text \<open>
  Claim C7. \<^verbatim>\<open>reconnect\<close> tries at most 10 times; when attempts 1 to 10 all fail it has
  tried exactly those and returns the error; and \<^verbatim>\<open>Start\<close> returns that error to its
  caller in the round in which it happens, whatever rounds would follow.
\<close>

theorem reconnect_gives_up_after_ten:
  "length (snd (reconnect dial)) \<le> 10 \<and>
   ((\<forall>n\<in>{1..10}. dial n \<noteq> Connected) \<longrightarrow>
      reconnect dial = (Some ''failed to reconnect after 10 attempts'', [1, 2, 3, 4, 5, 6, 7, 8, 9, 10])) \<and>
   (\<not> cancelled r \<and> subscribed r \<noteq> None \<and> \<not> cancelledAfter r \<and>
    (\<forall>n\<in>{1..10}. dials r n \<noteq> Connected) \<longrightarrow>
      Start (r # rs) = Some (Some ''failed to reconnect after 10 attempts''))"
proof -
  have len: "length (snd (reconnect dial)) \<le> 10"
    using reconnect_loop_length [of dial 1] by (simp add: reconnect_def maxReconnectAttempts_def)
  have upt: "[1..<Suc maxReconnectAttempts] = [1, 2, 3, 4, 5, 6, 7, 8, 9, 10]"
    by (simp add: maxReconnectAttempts_def upt_rec numeral_eq_Suc)
  have fail: "reconnect d = (Some ''failed to reconnect after 10 attempts'', [1, 2, 3, 4, 5, 6, 7, 8, 9, 10])"
    if "\<forall>n\<in>{1..10}. d n \<noteq> Connected" for d
  proof -
    from that have "\<forall>n. 1 \<le> n \<and> n \<le> maxReconnectAttempts \<longrightarrow> d n \<noteq> Connected"
      by (simp add: maxReconnectAttempts_def)
    from reconnect_loop_all_fail [OF this] upt show ?thesis
      by (simp add: reconnect_def)
  qed
  have start: "Start (r # rs) = Some (Some ''failed to reconnect after 10 attempts'')"
    if "\<not> cancelled r" "subscribed r \<noteq> None" "\<not> cancelledAfter r" "\<forall>n\<in>{1..10}. dials r n \<noteq> Connected"
    using that fail [of "dials r"] by (auto split: option.splits)
  from len fail [of dial] start show ?thesis by blast
qed

theorem reconnect_gives_up_after_ten_witness:
  "Connected \<notin> dials ex_round ` {1..10} \<and>
   \<not> cancelled ex_round \<and> subscribed ex_round \<noteq> None \<and> \<not> cancelledAfter ex_round \<and>
   reconnect (dials ex_round) =
     (Some ''failed to reconnect after 10 attempts'', [1, 2, 3, 4, 5, 6, 7, 8, 9, 10]) \<and>
   Start [ex_round, ex_round] = Some (Some ''failed to reconnect after 10 attempts'')"
proof -
  have a: "\<forall>n\<in>{1..10}. dials ex_round n \<noteq> Connected" by (simp add: ex_round_def)
  have b: "\<not> cancelled ex_round \<and> subscribed ex_round \<noteq> None \<and> \<not> cancelledAfter ex_round"
    by (simp add: ex_round_def)
  from a have c: "Connected \<notin> dials ex_round ` {1..10}" by force
  from reconnect_gives_up_after_ten [of "dials ex_round" ex_round "[ex_round]"] a b c
  show ?thesis by blast
qed

end
